theory Spec2Isabelle
  imports Complex_Main
begin

section \<open>Numbers\<close>

text \<open>
  The TypeScript type \<open>number\<close> is an IEEE binary64 value. Coordinates are only ever
  compared and copied, never computed with, so they are modelled with the special values
  spelled out: \<open>NaN\<close>, the two infinities, and a finite value standing for the real
  number it denotes. Comparison of binary64 values is exact, so \<open>js_le\<close> below is the
  comparison the engine performs: false as soon as one side is \<open>NaN\<close>.

  Speeds, timestamps and the other optional readings are modelled as \<open>real\<close>: finite
  values, with arithmetic that does not round.
\<close>

datatype jsnum = NaN | NegInf | Fin real | PosInf

type_synonym number = real

fun js_le :: "jsnum \<Rightarrow> jsnum \<Rightarrow> bool" where
  "js_le NaN y = False"
| "js_le x NaN = False"
| "js_le NegInf y = True"
| "js_le (Fin a) NegInf = False"
| "js_le (Fin a) (Fin b) = (a \<le> b)"
| "js_le (Fin a) PosInf = True"
| "js_le PosInf NegInf = False"
| "js_le PosInf (Fin b) = False"
| "js_le PosInf PosInf = True"

definition js_ge :: "jsnum \<Rightarrow> jsnum \<Rightarrow> bool" where
  "js_ge x y = js_le y x"

definition isNaN :: "jsnum \<Rightarrow> bool" where
  "isNaN x = (case x of NaN \<Rightarrow> True | NegInf \<Rightarrow> False | Fin a \<Rightarrow> False | PosInf \<Rightarrow> False)"

section \<open>The tracking service: data\<close>

text \<open>
  \<open>GpsPoint\<close> of \<^verbatim>\<open>services/tracking-service.ts\<close>. A field that is optional or nullable
  in the source is an \<open>option\<close> here (\<open>undefined\<close> and \<open>null\<close> are both \<open>None\<close>:
  the source only ever applies \<open>??\<close> to them).
\<close>

record GpsPoint =
  vehicle_uuid :: string
  vehicle_id :: "int option"
  org_numeric_id :: "int option"
  latitude :: jsnum
  longitude :: jsnum
  accuracy :: "number option"
  speed :: "number option"
  heading :: "number option"
  recorded_at :: number

definition LATEST_TTL_SECONDS :: nat where
  "LATEST_TTL_SECONDS = 5 * 60"

definition BUFFER_FLUSH_MS :: number where
  "BUFFER_FLUSH_MS = 5 * 60 * 1000"

definition BUFFER_MAX_POINTS :: nat where
  "BUFFER_MAX_POINTS = 200"

definition HARSH_ACCEL_THRESHOLD_M_S2 :: number where
  "HARSH_ACCEL_THRESHOLD_M_S2 = 5.0"

subsection \<open>Validation helper\<close>

text \<open>
  \<open>validateLatLon\<close>. The two \<open>typeof\<close> tests of the source hold by typing; the \<open>NaN\<close>
  test and the four comparisons are kept in the source's order.
\<close>

definition validateLatLon :: "jsnum \<Rightarrow> jsnum \<Rightarrow> bool" where
  "validateLatLon lat lon =
     (if isNaN lat \<or> isNaN lon then False
      else js_ge lat (Fin (- 90)) \<and> js_le lat (Fin 90) \<and>
           js_ge lon (Fin (- 180)) \<and> js_le lon (Fin 180))"

subsection \<open>Acceleration helpers\<close>

definition computeAcceleration :: "number \<Rightarrow> number \<Rightarrow> number \<Rightarrow> number" where
  "computeAcceleration prevSpeed curSpeed deltaSeconds =
     (if deltaSeconds \<le> 0 then 0 else (curSpeed - prevSpeed) / deltaSeconds)"

definition isHarshAcceleration :: "number \<Rightarrow> bool" where
  "isHarshAcceleration accelMps2 = (\<bar>accelMps2\<bar> \<ge> HARSH_ACCEL_THRESHOLD_M_S2)"

subsection \<open>Geofence helper\<close>





section \<open>The environment\<close>

text \<open>
  The key-value namespace \<open>KV_CACHE\<close>. The source builds five families of keys from the
  numeric vehicle id (\<open>tracking:vehicle:<id>:latest\<close>, \<open>:buffer\<close>, \<open>:last_flush\<close>,
  \<open>:last_speed\<close>, \<open>:last_ts\<close>); each family is one map here, from the vehicle id to the
  value that the stored string encodes (\<open>JSON.parse\<close> of \<open>JSON.stringify\<close> and \<open>Number\<close>
  of \<open>String\<close> give the value back). A key that is absent reads as \<open>null\<close>, here
  \<open>None\<close>. Expiry of entries is not modelled: every operation below runs on the store as
  it is at that moment.
\<close>

record kv_namespace =
  latest :: "int \<rightharpoonup> GpsPoint"
  buffer :: "int \<rightharpoonup> GpsPoint list"
  last_flush :: "int \<rightharpoonup> number"
  last_speed :: "int \<rightharpoonup> number"
  last_ts :: "int \<rightharpoonup> number"

text \<open>
  One row of \<open>gps_tracking\<close>, in the order of the \<open>INSERT\<close>'s eight bound parameters:
  vehicle id, organisation id, latitude, longitude, accuracy, speed, heading, recorded_at.
\<close>

datatype gps_row =
  GpsRow int int jsnum jsnum "number option" "number option" "number option" number

text \<open>
  One row of \<open>compliance_logs\<close>: uuid, org_id, compliance_item, entity_type, entity_id,
  status, logged_at, created_at.
\<close>

datatype compliance_row =
  ComplianceRow string int string string int string number number

text \<open>One row of \<open>vehicles\<close> as far as the tracking queries read it.\<close>

record vehicle_row =
  v_id :: int
  v_uuid :: string
  v_org_id :: int
  v_is_active :: int

text \<open>
  A WebSocket held by a broadcast hub: the frames delivered to it so far, whether
  \<open>send\<close> on it throws, and whether \<open>close\<close> has been called on it.
\<close>

datatype frame =
  Subscribed string number
| Update GpsPoint number

record socket =
  delivered :: "frame list"
  send_throws :: bool
  closed :: bool

text \<open>
  Everything the worker can observe or change.
  \<^item> \<open>KV_CACHE\<close> is \<open>None\<close> when the binding is missing (the \<open>!kv\<close> branches). An
    operation on a bound namespace may reject: \<open>kv_throws w n\<close> says whether the \<open>n\<close>-th
    \<open>get\<close>, \<open>put\<close> or \<open>delete\<close> does (counted by \<open>kv_ops\<close>); an operation that rejects
    leaves the store as it is.
  \<^item> The D1 tables are lists of rows in insertion order. An \<open>INSERT\<close> statement may
    throw: \<open>d1_run_throws w n\<close> says whether the \<open>n\<close>-th \<open>run()\<close> of an insert does
    (counted by \<open>d1_runs\<close>), so that any pattern of failures can be given. Reads of D1
    are taken to succeed.
  \<^item> \<open>Date.now()\<close> returns \<open>clock w n\<close> at its \<open>n\<close>-th call (counted by
    \<open>clock_reads\<close>), \<open>crypto.randomUUID()\<close> returns \<open>uuid_src w n\<close> at its \<open>n\<close>-th.
  \<^item> \<open>schema_uuid\<close> is the test that the schema library applies for \<open>z.string().uuid()\<close>;
    the library is not part of the repository, so the test is a parameter.
  \<^item> Sockets live in a store indexed by reference; the hub of a vehicle (the Durable
    Object instance named by the vehicle's uuid) holds its \<open>clients\<close> map as a list of
    client id and socket reference, in insertion order.
\<close>

record world =
  KV_CACHE :: "kv_namespace option"
  kv_ops :: nat
  kv_throws :: "nat \<Rightarrow> bool"
  organizations :: "(string \<times> int) list"
  vehicles :: "vehicle_row list"
  gps_tracking :: "gps_row list"
  compliance_logs :: "compliance_row list"
  d1_runs :: nat
  d1_run_throws :: "nat \<Rightarrow> bool"
  clock :: "nat \<Rightarrow> number"
  clock_reads :: nat
  uuid_src :: "nat \<Rightarrow> string"
  uuid_reads :: nat
  schema_uuid :: "string \<Rightarrow> bool"
  VEHICLE_TRACKING_DO :: bool
  stub_fetch_throws :: bool
  sockets :: "nat \<Rightarrow> socket"
  next_socket :: nat
  clients :: "string \<Rightarrow> (string \<times> nat) list"

datatype error = D1Error | KvError

definition date_now :: "world \<Rightarrow> number \<times> world" where
  "date_now w = (clock w (clock_reads w), w\<lparr>clock_reads := Suc (clock_reads w)\<rparr>)"

definition randomUUID :: "world \<Rightarrow> string \<times> world" where
  "randomUUID w = (uuid_src w (uuid_reads w), w\<lparr>uuid_reads := Suc (uuid_reads w)\<rparr>)"

text \<open>
  An asynchronous step either throws or returns a value, and changes the state either way.
  \<open>then_do m f\<close> awaits \<open>m\<close> and goes on with \<open>f\<close>; an exception of \<open>m\<close> ends the
  whole sequence.
\<close>

definition succeed :: "'a \<Rightarrow> world \<Rightarrow> (error + 'a) \<times> world" where
  "succeed x w = (Inr x, w)"

definition then_do ::
  "(world \<Rightarrow> (error + 'a) \<times> world) \<Rightarrow> ('a \<Rightarrow> world \<Rightarrow> (error + 'b) \<times> world) \<Rightarrow>
   world \<Rightarrow> (error + 'b) \<times> world" where
  "then_do m f w = (case m w of (Inl e, w1) \<Rightarrow> (Inl e, w1) | (Inr x, w1) \<Rightarrow> f x w1)"

text \<open>
  One operation on the bound namespace: counted, then rejected or let through with the
  store as it is. (The source only calls the namespace's methods after its \<open>!kv\<close> test.)
\<close>

definition kv_call :: "world \<Rightarrow> (error + kv_namespace) \<times> world" where
  "kv_call w =
     (case KV_CACHE w of
        None \<Rightarrow> (Inl KvError, w)
      | Some kv \<Rightarrow>
          if kv_throws w (kv_ops w) then (Inl KvError, w\<lparr>kv_ops := Suc (kv_ops w)\<rparr>)
          else (Inr kv, w\<lparr>kv_ops := Suc (kv_ops w)\<rparr>))"

text \<open>\<open>kv.get\<close>: what \<open>read\<close> finds in the store.\<close>

definition kv_get :: "(kv_namespace \<Rightarrow> 'a) \<Rightarrow> world \<Rightarrow> (error + 'a) \<times> world" where
  "kv_get read w = then_do kv_call (\<lambda>kv. succeed (read kv)) w"

text \<open>\<open>kv.put\<close> and \<open>kv.delete\<close>: the store changed by \<open>upd\<close>.\<close>

definition kv_write :: "(kv_namespace \<Rightarrow> kv_namespace) \<Rightarrow> world \<Rightarrow> (error + unit) \<times> world" where
  "kv_write upd w =
     then_do kv_call (\<lambda>kv w1. (Inr (), w1\<lparr>KV_CACHE := Some (upd kv)\<rparr>)) w"

text \<open>\<open>raw ? JSON.parse(raw) : []\<close> on the value of the buffer key.\<close>

definition parse_buffer :: "GpsPoint list option \<Rightarrow> GpsPoint list" where
  "parse_buffer raw = (case raw of None \<Rightarrow> [] | Some b \<Rightarrow> b)"

definition read_buffer :: "kv_namespace \<Rightarrow> int \<Rightarrow> GpsPoint list" where
  "read_buffer kv vehicleId = parse_buffer (buffer kv vehicleId)"

section \<open>The tracking service: operations\<close>

text \<open>The row that both insert statements bind for a point.\<close>

definition row_of :: "int \<Rightarrow> GpsPoint \<Rightarrow> gps_row" where
  "row_of vehicleId p =
     GpsRow vehicleId (case org_numeric_id p of None \<Rightarrow> 0 | Some i \<Rightarrow> i)
       (latitude p) (longitude p) (accuracy p) (speed p) (heading p) (recorded_at p)"

text \<open>One \<open>run()\<close> of the insert into \<open>gps_tracking\<close>: it throws or appends the row.\<close>

definition run_insert_gps :: "gps_row \<Rightarrow> world \<Rightarrow> (error + unit) \<times> world" where
  "run_insert_gps r w =
     (if d1_run_throws w (d1_runs w)
      then (Inl D1Error, w\<lparr>d1_runs := Suc (d1_runs w)\<rparr>)
      else (Inr (), w\<lparr>d1_runs := Suc (d1_runs w), gps_tracking := gps_tracking w @ [r]\<rparr>))"

definition writeSinglePointToDb :: "int \<Rightarrow> GpsPoint \<Rightarrow> world \<Rightarrow> (error + unit) \<times> world" where
  "writeSinglePointToDb vehicleId point w = run_insert_gps (row_of vehicleId point) w"

definition storeLatestInKV :: "int \<Rightarrow> GpsPoint \<Rightarrow> world \<Rightarrow> (error + unit) \<times> world" where
  "storeLatestInKV vehicleId point w =
     (case KV_CACHE w of
        None \<Rightarrow> (Inr (), w)
      | Some kv \<Rightarrow> kv_write (\<lambda>k. k\<lparr>latest := (latest k)(vehicleId \<mapsto> point)\<rparr>) w)"

text \<open>
  The \<open>for (const p of localPoints)\<close> loop of \<open>flushBufferToDb\<close>: one insert per point,
  counting them; the first insert that throws ends the loop with the rows before it
  already written.
\<close>

fun insert_points :: "int \<Rightarrow> GpsPoint list \<Rightarrow> nat \<Rightarrow> world \<Rightarrow> (error + nat) \<times> world" where
  "insert_points vehicleId [] inserted w = (Inr inserted, w)"
| "insert_points vehicleId (p # ps) inserted w =
     (case run_insert_gps (row_of vehicleId p) w of
        (Inl e, w1) \<Rightarrow> (Inl e, w1)
      | (Inr u, w1) \<Rightarrow> insert_points vehicleId ps (Suc inserted) w1)"

text \<open>
  The delete of the buffer key followed by the put of the marker, which both
  \<open>flushBufferToDb\<close> and \<open>bufferPoint\<close> do after a flush.
\<close>

definition clear_and_stamp :: "int \<Rightarrow> world \<Rightarrow> (error + unit) \<times> world" where
  "clear_and_stamp vehicleId w =
     then_do (kv_write (\<lambda>k. k\<lparr>buffer := (buffer k)(vehicleId := None)\<rparr>))
       (\<lambda>u w1. case date_now w1 of
                  (t, w2) \<Rightarrow> kv_write (\<lambda>k. k\<lparr>last_flush := (last_flush k)(vehicleId \<mapsto> t)\<rparr>) w2)
       w"

text \<open>
  The part of \<open>flushBufferToDb\<close> after \<open>localPoints\<close> is known: the loop, then, with a
  key-value namespace, the delete of the buffer key and the put of the marker.
\<close>

definition flush_points :: "int \<Rightarrow> GpsPoint list \<Rightarrow> world \<Rightarrow> (error + nat) \<times> world" where
  "flush_points vehicleId localPoints w =
     then_do (insert_points vehicleId localPoints 0)
       (\<lambda>inserted w1.
          case KV_CACHE w1 of
            None \<Rightarrow> (Inr inserted, w1)
          | Some kv \<Rightarrow> then_do (clear_and_stamp vehicleId) (\<lambda>u. succeed inserted) w1)
       w"

definition flushBufferToDb ::
  "int \<Rightarrow> GpsPoint list option \<Rightarrow> world \<Rightarrow> (error + nat) \<times> world" where
  "flushBufferToDb vehicleId points w =
     (case points of
        Some localPoints \<Rightarrow> flush_points vehicleId localPoints w
      | None \<Rightarrow>
          (case KV_CACHE w of
             None \<Rightarrow> (Inr 0, w)
           | Some kv \<Rightarrow>
               then_do (kv_get (\<lambda>k. buffer k vehicleId))
                 (\<lambda>raw. let localPoints = parse_buffer raw
                         in if length localPoints = 0 then succeed 0
                            else flush_points vehicleId localPoints)
                 w))"

definition bufferPoint :: "int \<Rightarrow> GpsPoint \<Rightarrow> world \<Rightarrow> (error + nat) \<times> world" where
  "bufferPoint vehicleId point w =
     (case KV_CACHE w of
        None \<Rightarrow> then_do (writeSinglePointToDb vehicleId point) (\<lambda>u. succeed 1) w
      | Some kv \<Rightarrow>
          then_do (kv_get (\<lambda>k. buffer k vehicleId))
            (\<lambda>bufferRaw.
               let buf = parse_buffer bufferRaw @ [point]
               in if length buf \<ge> BUFFER_MAX_POINTS then
                    then_do (flushBufferToDb vehicleId (Some buf))
                      (\<lambda>n. then_do (clear_and_stamp vehicleId) (\<lambda>u. succeed 0))
                  else
                    then_do (kv_write (\<lambda>k. k\<lparr>buffer := (buffer k)(vehicleId \<mapsto> buf)\<rparr>))
                      (\<lambda>u. succeed (length buf)))
            w)"

definition maybeFlushBuffer :: "int \<Rightarrow> world \<Rightarrow> (error + unit) \<times> world" where
  "maybeFlushBuffer vehicleId w =
     (case KV_CACHE w of
        None \<Rightarrow> (Inr (), w)
      | Some kv \<Rightarrow>
          then_do (kv_get (\<lambda>k. last_flush k vehicleId))
            (\<lambda>lastFlushRaw w1.
               let lastFlush = (case lastFlushRaw of None \<Rightarrow> 0 | Some t \<Rightarrow> t)
               in case date_now w1 of
                    (now, w2) \<Rightarrow>
                      if now - lastFlush \<ge> BUFFER_FLUSH_MS then
                        then_do (kv_get (\<lambda>k. buffer k vehicleId))
                          (\<lambda>raw.
                             let buf = parse_buffer raw
                             in if length buf > 0 then
                                  then_do (flushBufferToDb vehicleId (Some buf)) (\<lambda>n. succeed ())
                                else
                                  kv_write (\<lambda>k. k\<lparr>last_flush := (last_flush k)(vehicleId \<mapsto> now)\<rparr>))
                          w2
                      else (Inr (), w2))
            w)"

section \<open>The broadcast hub\<close>

text \<open>
  \<open>VehicleTrackingDO\<close>. One instance exists per name; \<open>hub\<close> below is that name, and
  \<open>clients w hub\<close> is the instance's \<open>clients\<close> map.
\<close>

text \<open>\<open>Map.prototype.set\<close>: an existing key keeps its place, a new key goes last.\<close>

definition map_set :: "string \<Rightarrow> nat \<Rightarrow> (string \<times> nat) list \<Rightarrow> (string \<times> nat) list" where
  "map_set k v m =
     (if k \<in> fst ` set m then map (\<lambda>(i, x). if i = k then (i, v) else (i, x)) m
      else m @ [(k, v)])"

text \<open>\<open>Map.prototype.delete\<close>.\<close>

definition map_delete :: "string \<Rightarrow> (string \<times> nat) list \<Rightarrow> (string \<times> nat) list" where
  "map_delete k m = filter (\<lambda>(i, x). i \<noteq> k) m"

text \<open>
  The loop of \<open>broadcast\<close> over the entries of \<open>this.clients\<close>. The iterator of a
  \<open>Map\<close> visits every entry that is present when its turn comes, and the body only ever
  deletes the entry being visited, so the loop runs over the entries present at its start.
  A \<open>send\<close> that throws is caught: the socket is closed (an exception of \<open>close\<close> itself
  is swallowed) and its entry deleted.
\<close>

fun broadcast_loop :: "string \<Rightarrow> frame \<Rightarrow> (string \<times> nat) list \<Rightarrow> world \<Rightarrow> world" where
  "broadcast_loop hub data [] w = w"
| "broadcast_loop hub data ((cid, s) # rest) w =
     (if send_throws (sockets w s) then
        broadcast_loop hub data rest
          (w\<lparr>sockets := (sockets w)(s := (sockets w s)\<lparr>closed := True\<rparr>),
             clients := (clients w)(hub := map_delete cid (clients w hub))\<rparr>)
      else
        broadcast_loop hub data rest
          (w\<lparr>sockets := (sockets w)(s := (sockets w s)\<lparr>delivered := delivered (sockets w s) @ [data]\<rparr>)\<rparr>))"

definition broadcast :: "string \<Rightarrow> frame \<Rightarrow> world \<Rightarrow> world" where
  "broadcast hub payload w = broadcast_loop hub payload (clients w hub) w"

text \<open>
  \<open>handleSubscribe\<close>: the response status and the new state. The query parameter is
  \<open>None\<close> or empty when \<open>vehicle_uuid\<close> is missing. The server side of a new
  \<open>WebSocketPair\<close> is a fresh reference in the socket store.
\<close>

definition handleSubscribe :: "string \<Rightarrow> string option \<Rightarrow> world \<Rightarrow> nat \<times> world" where
  "handleSubscribe hub vehicleUuid w =
     (case vehicleUuid of
        None \<Rightarrow> (400, w)
      | Some vu \<Rightarrow>
          if vu = [] then (400, w)
          else
            let server = next_socket w;
                w1 = w\<lparr>next_socket := Suc server,
                       sockets := (sockets w)(server :=
                         \<lparr>delivered = [], send_throws = False, closed = False\<rparr>)\<rparr>;
                (clientId, w2) = randomUUID w1;
                w3 = w2\<lparr>clients := (clients w2)(hub := map_set clientId server (clients w2 hub))\<rparr>;
                (t, w4) = date_now w3;
                w5 = w4\<lparr>sockets := (sockets w4)(server :=
                         (sockets w4 server)\<lparr>delivered := delivered (sockets w4 server) @ [Subscribed vu t]\<rparr>)\<rparr>
            in (101, w5))"

text \<open>
  \<open>handleUpdate\<close>, on a body that parsed as a point: the response status and the new
  state. The body is refused when its \<open>vehicle_uuid\<close> is empty.
\<close>

definition handleUpdate :: "string \<Rightarrow> GpsPoint \<Rightarrow> world \<Rightarrow> nat \<times> world" where
  "handleUpdate hub body w =
     (if vehicle_uuid body = [] then (400, w)
      else
        let (t, w1) = date_now w
        in (200, broadcast hub (Update body t) w1))"

section \<open>The ingestion route\<close>

text \<open>
  \<open>POST /tracking\<close>. The request is the JSON body, typed as the schema types it, together
  with the organisation uuid that the authentication middleware put in the context (the
  middleware lets no request through without one). Of \<open>gpsSchema.parse\<close> the uuid test
  remains, the types doing the rest. The response keeps the error's status and code, or the
  \<open>buffered\<close> count of a success; its \<open>timestamp\<close> is the one reading of the clock that
  every response makes.
\<close>

record request =
  orgId :: string
  rq_vehicle_uuid :: string
  rq_latitude :: jsnum
  rq_longitude :: jsnum
  rq_accuracy :: "number option"
  rq_speed :: "number option"
  rq_heading :: "number option"
  rq_recorded_at :: "number option"

datatype api_error = ApiError nat string

abbreviation VALIDATION_ERROR :: api_error where
  "VALIDATION_ERROR \<equiv> ApiError 400 ''VALIDATION_ERROR''"

abbreviation BAD_ORG :: api_error where
  "BAD_ORG \<equiv> ApiError 400 ''BAD_ORG''"

abbreviation ORG_NOT_FOUND :: api_error where
  "ORG_NOT_FOUND \<equiv> ApiError 404 ''ORG_NOT_FOUND''"

abbreviation INVALID_COORDS :: api_error where
  "INVALID_COORDS \<equiv> ApiError 400 ''INVALID_COORDS''"

abbreviation VEHICLE_NOT_FOUND :: api_error where
  "VEHICLE_NOT_FOUND \<equiv> ApiError 404 ''VEHICLE_NOT_FOUND''"

abbreviation TRACKING_FAILED :: api_error where
  "TRACKING_FAILED \<equiv> ApiError 500 ''TRACKING_FAILED''"

text \<open>\<open>sendError\<close>: the error response, stamped with \<open>nowMs()\<close>.\<close>

definition sendError :: "api_error \<Rightarrow> world \<Rightarrow> (api_error + nat) \<times> world" where
  "sendError err w = (Inl err, snd (date_now w))"

text \<open>
  \<open>SELECT id FROM organizations WHERE uuid = ?1 LIMIT 1\<close>: the id of the first row with
  that uuid, if there is one.
\<close>

definition resolve_org :: "world \<Rightarrow> string \<Rightarrow> int option" where
  "resolve_org w orgUuid =
     (case filter (\<lambda>(u, i). u = orgUuid) (organizations w) of
        [] \<Rightarrow> None
      | (u, i) # rest \<Rightarrow> Some i)"

text \<open>
  \<open>resolveVehicleNumericId\<close>: the first active vehicle of the organisation with that
  uuid, \<open>null\<close> when there is none.
\<close>

definition resolveVehicleNumericId :: "world \<Rightarrow> int \<Rightarrow> string \<Rightarrow> int option" where
  "resolveVehicleNumericId w orgNumericId vehicleUuid =
     (case filter (\<lambda>v. v_uuid v = vehicleUuid \<and> v_org_id v = orgNumericId \<and> v_is_active v = 1)
             (vehicles w) of
        [] \<Rightarrow> None
      | v # rest \<Rightarrow> Some (v_id v))"

definition make_point :: "request \<Rightarrow> int \<Rightarrow> int \<Rightarrow> number \<Rightarrow> GpsPoint" where
  "make_point parsed orgNumericId vehicleNumericId recordedAt =
     \<lparr>vehicle_uuid = rq_vehicle_uuid parsed,
      vehicle_id = Some vehicleNumericId,
      org_numeric_id = Some orgNumericId,
      latitude = rq_latitude parsed,
      longitude = rq_longitude parsed,
      accuracy = rq_accuracy parsed,
      speed = rq_speed parsed,
      heading = rq_heading parsed,
      recorded_at = recordedAt\<rparr>"

text \<open>
  \<open>lastTs ? Math.max((recordedAt - lastTs) / 1000, 0.001) : 1\<close>, where \<open>lastTs\<close> is
  \<open>null\<close> or the stored number: the condition is the truthiness of \<open>lastTs\<close>, which is
  false for \<open>null\<close> and for the number \<open>0\<close>.
\<close>

definition deltaSeconds_of :: "number option \<Rightarrow> number \<Rightarrow> number" where
  "deltaSeconds_of lastTs recordedAt =
     (case lastTs of
        None \<Rightarrow> 1
      | Some t \<Rightarrow> if t = 0 then 1 else max ((recordedAt - t) / 1000) 0.001)"

text \<open>One \<open>run()\<close> of the insert into \<open>compliance_logs\<close>.\<close>

definition run_insert_compliance :: "compliance_row \<Rightarrow> world \<Rightarrow> (error + unit) \<times> world" where
  "run_insert_compliance r w =
     (if d1_run_throws w (d1_runs w)
      then (Inl D1Error, w\<lparr>d1_runs := Suc (d1_runs w)\<rparr>)
      else (Inr (), w\<lparr>d1_runs := Suc (d1_runs w), compliance_logs := compliance_logs w @ [r]\<rparr>))"

definition log_harsh :: "int \<Rightarrow> int \<Rightarrow> world \<Rightarrow> (error + unit) \<times> world" where
  "log_harsh orgNumericId vehicleNumericId w =
     (let (u, w1) = randomUUID w;
          (t1, w2) = date_now w1;
          (t2, w3) = date_now w2
      in run_insert_compliance
           (ComplianceRow u orgNumericId ''harsh_acceleration'' ''vehicle'' vehicleNumericId
              ''warning'' t1 t2) w3)"

text \<open>
  The acceleration that the detection block computes from the stored motion state, when
  it computes one: a previous speed is stored and the request carries a speed.
\<close>

definition detected_accel :: "kv_namespace \<Rightarrow> int \<Rightarrow> number option \<Rightarrow> number \<Rightarrow> number option" where
  "detected_accel kv vehicleNumericId parsed_speed recordedAt =
     (case last_speed kv vehicleNumericId of
        None \<Rightarrow> None
      | Some lastSpeed \<Rightarrow>
          (case parsed_speed of
             None \<Rightarrow> None
           | Some s \<Rightarrow>
               Some (computeAcceleration lastSpeed s
                       (deltaSeconds_of (last_ts kv vehicleNumericId) recordedAt))))"

text \<open>
  The body of the detection block's \<open>try\<close>, for a bound namespace: the two reads, the
  classification with its insert, and the two writes of the new motion state.
\<close>

definition harsh_block :: "int \<Rightarrow> int \<Rightarrow> number option \<Rightarrow> number \<Rightarrow> world \<Rightarrow> (error + unit) \<times> world" where
  "harsh_block orgNumericId vehicleNumericId parsed_speed recordedAt w =
     then_do (kv_get (\<lambda>k. last_speed k vehicleNumericId))
       (\<lambda>lastRaw.
          then_do
            (case lastRaw of
               None \<Rightarrow> succeed ()
             | Some lastSpeed \<Rightarrow>
                 (case parsed_speed of
                    None \<Rightarrow> succeed ()
                  | Some s \<Rightarrow>
                      then_do (kv_get (\<lambda>k. last_ts k vehicleNumericId))
                        (\<lambda>lastTs.
                           if isHarshAcceleration
                                (computeAcceleration lastSpeed s (deltaSeconds_of lastTs recordedAt))
                           then log_harsh orgNumericId vehicleNumericId
                           else succeed ())))
            (\<lambda>u. case parsed_speed of
                    None \<Rightarrow> succeed ()
                  | Some s \<Rightarrow>
                      then_do (kv_write (\<lambda>k. k\<lparr>last_speed := (last_speed k)(vehicleNumericId \<mapsto> s)\<rparr>))
                        (\<lambda>u. kv_write (\<lambda>k. k\<lparr>last_ts := (last_ts k)(vehicleNumericId \<mapsto> recordedAt)\<rparr>))))
       w"

text \<open>
  The detection block: whatever its body throws is caught and logged, and the state is as
  the body left it.
\<close>

definition detect_harsh :: "int \<Rightarrow> int \<Rightarrow> number option \<Rightarrow> number \<Rightarrow> world \<Rightarrow> world" where
  "detect_harsh orgNumericId vehicleNumericId parsed_speed recordedAt w =
     (case KV_CACHE w of
        None \<Rightarrow> w
      | Some kv \<Rightarrow> snd (harsh_block orgNumericId vehicleNumericId parsed_speed recordedAt w))"

text \<open>
  The broadcast block, inside its \<open>try\<close>: the hub named by the vehicle's uuid is sent the
  point, unless the binding is missing or the call to the stub throws.
\<close>

definition broadcast_update :: "GpsPoint \<Rightarrow> world \<Rightarrow> world" where
  "broadcast_update point w =
     (if VEHICLE_TRACKING_DO w then
        (if stub_fetch_throws w then w
         else snd (handleUpdate (vehicle_uuid point) point w))
      else w)"

text \<open>
  The stages of the handler that can make it answer \<open>TRACKING_FAILED\<close>: the store of the
  latest position, the buffer append, the time-based check.
\<close>

definition store_and_buffer :: "int \<Rightarrow> GpsPoint \<Rightarrow> world \<Rightarrow> (error + nat) \<times> world" where
  "store_and_buffer vehicleNumericId point w =
     then_do (storeLatestInKV vehicleNumericId point)
       (\<lambda>u. then_do (bufferPoint vehicleNumericId point)
          (\<lambda>bufferLen. then_do (maybeFlushBuffer vehicleNumericId) (\<lambda>u. succeed bufferLen)))
       w"

text \<open>The handler from the point's timestamp on.\<close>

definition ingest_resolved :: "request \<Rightarrow> int \<Rightarrow> int \<Rightarrow> world \<Rightarrow> (api_error + nat) \<times> world" where
  "ingest_resolved parsed orgNumericId vehicleNumericId w =
     (let (recordedAt, w0) = (case rq_recorded_at parsed of
                                Some t \<Rightarrow> (t, w)
                              | None \<Rightarrow> date_now w);
          point = make_point parsed orgNumericId vehicleNumericId recordedAt
      in case store_and_buffer vehicleNumericId point w0 of
           (Inl e, w3) \<Rightarrow> sendError TRACKING_FAILED w3
         | (Inr bufferLen, w3) \<Rightarrow>
             let w4 = detect_harsh orgNumericId vehicleNumericId (rq_speed parsed) recordedAt w3;
                 w5 = broadcast_update point w4;
                 (t, w6) = date_now w5
             in (Inr bufferLen, w6))"

text \<open>
  The handler up to identity resolution. \<open>!orgUuid\<close> holds for an empty uuid;
  \<open>!vehicleNumericId\<close> holds for \<open>null\<close> and for the id \<open>0\<close>.
\<close>

definition ingest :: "request \<Rightarrow> world \<Rightarrow> (api_error + nat) \<times> world" where
  "ingest parsed w =
     (if \<not> schema_uuid w (rq_vehicle_uuid parsed) then sendError VALIDATION_ERROR w
      else if orgId parsed = [] then sendError BAD_ORG w
      else
        (case resolve_org w (orgId parsed) of
           None \<Rightarrow> sendError ORG_NOT_FOUND w
         | Some orgNumericId \<Rightarrow>
             if \<not> validateLatLon (rq_latitude parsed) (rq_longitude parsed)
             then sendError INVALID_COORDS w
             else
               (case resolveVehicleNumericId w orgNumericId (rq_vehicle_uuid parsed) of
                  None \<Rightarrow> sendError VEHICLE_NOT_FOUND w
                | Some vehicleNumericId \<Rightarrow>
                    if vehicleNumericId = 0 then sendError VEHICLE_NOT_FOUND w
                    else ingest_resolved parsed orgNumericId vehicleNumericId w)))"

section \<open>Reading the state\<close>

text \<open>
  Whether the request's vehicle identifier resolves: the token's organisation exists and
  has an active vehicle with the request's uuid.
\<close>

definition vehicle_resolves :: "request \<Rightarrow> world \<Rightarrow> bool" where
  "vehicle_resolves parsed w =
     (case resolve_org w (orgId parsed) of
        None \<Rightarrow> False
      | Some orgNumericId \<Rightarrow>
          (case resolveVehicleNumericId w orgNumericId (rq_vehicle_uuid parsed) of
             None \<Rightarrow> False
           | Some vehicleNumericId \<Rightarrow> True))"

text \<open>The latest-position cache entry of a vehicle, \<open>None\<close> without a cache.\<close>

definition latest_of :: "world \<Rightarrow> int \<Rightarrow> GpsPoint option" where
  "latest_of w vehicleId = (case KV_CACHE w of None \<Rightarrow> None | Some kv \<Rightarrow> latest kv vehicleId)"



text \<open>
  The hubs as \<open>handleSubscribe\<close> builds them: in every hub the client ids are distinct
  (they are the keys of a \<open>Map\<close>) and so are the sockets, every registered socket has been
  allocated, and no socket is registered on two hubs.
\<close>

definition hubs_wf :: "world \<Rightarrow> bool" where
  "hubs_wf w =
     ((\<forall>h. distinct (map fst (clients w h)) \<and> distinct (map snd (clients w h)) \<and>
           (\<forall>s \<in> snd ` set (clients w h). s < next_socket w))
      \<and> (\<forall>h h'. h \<noteq> h' \<longrightarrow> snd ` set (clients w h) \<inter> snd ` set (clients w h') = {}))"

section \<open>Scenarios\<close>

text \<open>
  A caller that appends the points of a list to one vehicle's buffer, one call of
  \<open>bufferPoint\<close> after the other, and keeps every call's result.
\<close>

fun append_all :: "int \<Rightarrow> GpsPoint list \<Rightarrow> world \<Rightarrow> (error + nat) list \<times> world" where
  "append_all vehicleId [] w = ([], w)"
| "append_all vehicleId (p # ps) w =
     (case bufferPoint vehicleId p w of
        (r, w1) \<Rightarrow> (case append_all vehicleId ps w1 of (rs, w2) \<Rightarrow> (r # rs, w2)))"

text \<open>
  A uuid test for the example worlds: five groups of 8, 4, 4, 4 and 12 hexadecimal digits,
  separated by hyphens.
\<close>

definition hex_digit :: "char \<Rightarrow> bool" where
  "hex_digit c = (c \<in> set ''0123456789abcdefABCDEF'')"

fun hex_run :: "nat \<Rightarrow> string \<Rightarrow> string option" where
  "hex_run 0 s = Some s"
| "hex_run (Suc n) [] = None"
| "hex_run (Suc n) (c # s) = (if hex_digit c then hex_run n s else None)"

fun hyphen :: "string \<Rightarrow> string option" where
  "hyphen [] = None"
| "hyphen (c # s) = (if c = CHR ''-'' then Some s else None)"

definition uuid_shape :: "string \<Rightarrow> bool" where
  "uuid_shape s =
     (Option.bind (Option.bind (Option.bind (Option.bind (Option.bind (Option.bind (Option.bind
        (Option.bind (hex_run 8 s) hyphen) (hex_run 4)) hyphen) (hex_run 4)) hyphen)
        (hex_run 4)) hyphen) (hex_run 12) = Some [])"

text \<open>Concrete points, stores and worlds on which the theorems below are exercised.\<close>

definition example_point :: GpsPoint where
  "example_point =
     \<lparr>vehicle_uuid = ''0a1b2c3d-0000-4000-8000-00000000000a'', vehicle_id = Some 1,
      org_numeric_id = Some 7, latitude = Fin 10, longitude = Fin 20, accuracy = None,
      speed = Some 5, heading = None, recorded_at = 1000\<rparr>"

definition numbered_point :: "nat \<Rightarrow> GpsPoint" where
  "numbered_point i = example_point\<lparr>recorded_at := real i\<rparr>"

definition trigger_point :: GpsPoint where
  "trigger_point = example_point\<lparr>recorded_at := 2000\<rparr>"

definition empty_kv :: kv_namespace where
  "empty_kv = \<lparr>latest = Map.empty, buffer = Map.empty, last_flush = Map.empty,
               last_speed = Map.empty, last_ts = Map.empty\<rparr>"

definition example_world :: world where
  "example_world =
     \<lparr>KV_CACHE = Some empty_kv,
      kv_ops = 0,
      kv_throws = (\<lambda>n. False),
      organizations = [(''0f0e0d0c-0000-4000-8000-000000000007'', 7)],
      vehicles = [\<lparr>v_id = 1, v_uuid = ''0a1b2c3d-0000-4000-8000-00000000000a'', v_org_id = 7,
                   v_is_active = 1\<rparr>],
      gps_tracking = [],
      compliance_logs = [],
      d1_runs = 0,
      d1_run_throws = (\<lambda>n. False),
      clock = (\<lambda>n. 1000000 + real n),
      clock_reads = 0,
      uuid_src = (\<lambda>n. ''uuid''),
      uuid_reads = 0,
      schema_uuid = uuid_shape,
      VEHICLE_TRACKING_DO = True,
      stub_fetch_throws = False,
      sockets = (\<lambda>s. \<lparr>delivered = [], send_throws = False, closed = False\<rparr>),
      next_socket = 0,
      clients = (\<lambda>h. [])\<rparr>"



definition stale_kv :: kv_namespace where
  "stale_kv = empty_kv\<lparr>buffer := [1 \<mapsto> [example_point, trigger_point]], last_flush := [1 \<mapsto> 0]\<rparr>"

definition stale_world :: world where
  "stale_world = example_world\<lparr>KV_CACHE := Some stale_kv\<rparr>"


definition idle_kv :: kv_namespace where
  "idle_kv = empty_kv\<lparr>last_flush := [1 \<mapsto> 0]\<rparr>"

definition fresh_kv :: kv_namespace where
  "fresh_kv = stale_kv\<lparr>last_flush := [1 \<mapsto> 900000]\<rparr>"

definition unknown_request :: request where
  "unknown_request =
     \<lparr>orgId = ''0f0e0d0c-0000-4000-8000-000000000007'',
      rq_vehicle_uuid = ''0a1b2c3d-0000-4000-8000-0000000000ff'', rq_latitude = Fin 10,
      rq_longitude = Fin 20, rq_accuracy = None, rq_speed = Some 16, rq_heading = None,
      rq_recorded_at = Some 2000\<rparr>"

definition example_request :: request where
  "example_request = unknown_request\<lparr>rq_vehicle_uuid := ''0a1b2c3d-0000-4000-8000-00000000000a''\<rparr>"

definition epoch_request :: request where
  "epoch_request = example_request\<lparr>rq_speed := Some 10, rq_recorded_at := Some 0\<rparr>"

definition ok_socket :: socket where
  "ok_socket = \<lparr>delivered = [], send_throws = False, closed = False\<rparr>"

definition hub_world :: world where
  "hub_world =
     example_world\<lparr>sockets := (\<lambda>s. ok_socket)(11 := ok_socket\<lparr>send_throws := True\<rparr>),
                   next_socket := 13,
                   clients := (\<lambda>h. [])(''0a1b2c3d-0000-4000-8000-00000000000a'' := [(''c0'', 10), (''c1'', 11)],
                                         ''0a1b2c3d-0000-4000-8000-00000000000b'' := [(''c2'', 12)])\<rparr>"

section \<open>Coordinate validation\<close>

lemma js_le_Fin_right: "js_le x (Fin b) = (x = NegInf \<or> (\<exists>a. x = Fin a \<and> a \<le> b))"
  by (cases x) simp_all

lemma js_le_Fin_left: "js_le (Fin a) x = (x = PosInf \<or> (\<exists>b. x = Fin b \<and> a \<le> b))"
  by (cases x) simp_all

text \<open>
  C9. \<open>validateLatLon\<close> accepts a pair exactly when both values are finite numbers with
  \<open>-90 \<le> lat \<le> 90\<close> and \<open>-180 \<le> lon \<le> 180\<close>; it rejects when either value is \<open>NaN\<close>, and
  it rejects the infinities, which lie outside the ranges.
\<close>

theorem validateLatLon_iff:
  "(validateLatLon lat lon =
      (\<exists>x y. lat = Fin x \<and> lon = Fin y \<and> - 90 \<le> x \<and> x \<le> 90 \<and> - 180 \<le> y \<and> y \<le> 180))
   \<and> validateLatLon NaN lon = False
   \<and> validateLatLon lat NaN = False"
  by (auto simp: validateLatLon_def isNaN_def js_ge_def js_le_Fin_right js_le_Fin_left
           split: jsnum.splits)

section \<open>The write buffer and its flush\<close>

subsection \<open>Operations on the key-value namespace\<close>

lemma kv_get_ok:
  "KV_CACHE w = Some kv \<Longrightarrow> \<not> kv_throws w (kv_ops w) \<Longrightarrow>
   kv_get rd w = (Inr (rd kv), w\<lparr>kv_ops := Suc (kv_ops w)\<rparr>)"
  by (simp add: kv_get_def kv_call_def then_do_def succeed_def)

lemma kv_get_fail:
  "KV_CACHE w = Some kv \<Longrightarrow> kv_throws w (kv_ops w) \<Longrightarrow>
   kv_get rd w = (Inl KvError, w\<lparr>kv_ops := Suc (kv_ops w)\<rparr>)"
  by (simp add: kv_get_def kv_call_def then_do_def succeed_def)

lemma kv_write_ok:
  "KV_CACHE w = Some kv \<Longrightarrow> \<not> kv_throws w (kv_ops w) \<Longrightarrow>
   kv_write upd w = (Inr (), w\<lparr>KV_CACHE := Some (upd kv), kv_ops := Suc (kv_ops w)\<rparr>)"
  by (simp add: kv_write_def kv_call_def then_do_def)

lemma kv_write_fail:
  "KV_CACHE w = Some kv \<Longrightarrow> kv_throws w (kv_ops w) \<Longrightarrow>
   kv_write upd w = (Inl KvError, w\<lparr>kv_ops := Suc (kv_ops w)\<rparr>)"
  by (simp add: kv_write_def kv_call_def then_do_def)

subsection \<open>The insert loop and the flush\<close>

lemma insert_points_ok:
  "\<forall>i<length ps. \<not> d1_run_throws w (d1_runs w + i) \<Longrightarrow>
   insert_points vid ps n w =
     (Inr (n + length ps),
      w\<lparr>d1_runs := d1_runs w + length ps,
        gps_tracking := gps_tracking w @ map (row_of vid) ps\<rparr>)"
proof (induction ps arbitrary: n w)
  case Nil
  then show ?case by simp
next
  case (Cons p ps)
  from Cons.prems have h0: "\<not> d1_run_throws w (d1_runs w)" by force
  let ?w1 = "w\<lparr>d1_runs := Suc (d1_runs w), gps_tracking := gps_tracking w @ [row_of vid p]\<rparr>"
  from Cons.prems have "\<forall>i<length ps. \<not> d1_run_throws ?w1 (d1_runs ?w1 + i)" by force
  from Cons.IH[OF this, of "Suc n"] h0 show ?case
    by (simp add: run_insert_gps_def)
qed




lemma clear_and_stamp_ok:
  "KV_CACHE w = Some kv \<Longrightarrow> \<forall>n. \<not> kv_throws w n \<Longrightarrow>
   clear_and_stamp vid w =
     (Inr (),
      w\<lparr>KV_CACHE := Some (kv\<lparr>buffer := (buffer kv)(vid := None),
                              last_flush := (last_flush kv)(vid \<mapsto> clock w (clock_reads w))\<rparr>),
        kv_ops := kv_ops w + 2,
        clock_reads := Suc (clock_reads w)\<rparr>)"
  by (simp add: clear_and_stamp_def then_do_def kv_write_ok date_now_def)

lemma flush_points_ok:
  "KV_CACHE w = Some kv \<Longrightarrow> \<forall>n. \<not> kv_throws w n \<Longrightarrow>
   \<forall>i<length ps. \<not> d1_run_throws w (d1_runs w + i) \<Longrightarrow>
   flush_points vid ps w =
     (Inr (length ps),
      w\<lparr>KV_CACHE := Some (kv\<lparr>buffer := (buffer kv)(vid := None),
                              last_flush := (last_flush kv)(vid \<mapsto> clock w (clock_reads w))\<rparr>),
        kv_ops := kv_ops w + 2,
        d1_runs := d1_runs w + length ps,
        gps_tracking := gps_tracking w @ map (row_of vid) ps,
        clock_reads := Suc (clock_reads w)\<rparr>)"
  by (simp add: flush_points_def then_do_def insert_points_ok clear_and_stamp_ok succeed_def)


subsection \<open>One append\<close>

lemma bufferPoint_below:
  "KV_CACHE w = Some kv \<Longrightarrow> \<forall>n. \<not> kv_throws w n \<Longrightarrow>
   Suc (length (read_buffer kv vid)) < 200 \<Longrightarrow>
   bufferPoint vid p w =
     (Inr (Suc (length (read_buffer kv vid))),
      w\<lparr>KV_CACHE := Some (kv\<lparr>buffer := (buffer kv)(vid \<mapsto> read_buffer kv vid @ [p])\<rparr>),
        kv_ops := kv_ops w + 2\<rparr>)"
  by (simp add: bufferPoint_def BUFFER_MAX_POINTS_def then_do_def kv_get_ok kv_write_ok
        read_buffer_def succeed_def)

lemma bufferPoint_cap:
  "KV_CACHE w = Some kv \<Longrightarrow> \<forall>n. \<not> kv_throws w n \<Longrightarrow>
   200 \<le> Suc (length (read_buffer kv vid)) \<Longrightarrow>
   \<forall>i<Suc (length (read_buffer kv vid)). \<not> d1_run_throws w (d1_runs w + i) \<Longrightarrow>
   bufferPoint vid p w =
     (Inr 0,
      w\<lparr>KV_CACHE := Some (kv\<lparr>buffer := (buffer kv)(vid := None),
                              last_flush := (last_flush kv)(vid \<mapsto> clock w (Suc (clock_reads w)))\<rparr>),
        kv_ops := kv_ops w + 5,
        d1_runs := d1_runs w + Suc (length (read_buffer kv vid)),
        gps_tracking := gps_tracking w @ map (row_of vid) (read_buffer kv vid @ [p]),
        clock_reads := Suc (Suc (clock_reads w))\<rparr>)"
  by (simp add: bufferPoint_def BUFFER_MAX_POINTS_def then_do_def kv_get_ok
        read_buffer_def succeed_def flushBufferToDb_def flush_points_ok clear_and_stamp_ok)


lemma row_of_eq:
  "row_of vid = (\<lambda>q. GpsRow vid (case org_numeric_id q of None \<Rightarrow> 0 | Some i \<Rightarrow> i) (latitude q) (longitude q) (accuracy q) (speed q) (heading q) (recorded_at q))"
  by (rule ext) (simp add: row_of_def)

lemma bufferPoint_no_binding:
  "KV_CACHE w = None \<Longrightarrow>
   bufferPoint vid p w =
     (if d1_run_throws w (d1_runs w)
      then (Inl D1Error, w\<lparr>d1_runs := Suc (d1_runs w)\<rparr>)
      else (Inr 1, w\<lparr>d1_runs := Suc (d1_runs w),
                      gps_tracking := gps_tracking w @ [row_of vid p]\<rparr>))"
  by (simp add: bufferPoint_def writeSinglePointToDb_def run_insert_gps_def then_do_def succeed_def)

lemma bufferPoint_store_rejects:
  "KV_CACHE w = Some kv \<Longrightarrow> kv_throws w (kv_ops w) \<Longrightarrow>
   bufferPoint vid p w = (Inl KvError, w\<lparr>kv_ops := Suc (kv_ops w)\<rparr>)"
  by (simp add: bufferPoint_def then_do_def kv_get_fail)

text \<open>
  C3, as the code has it. The direct write is what an append does without the key-value
  binding, and only then. Without the binding the append does not buffer: it runs the
  single-row insert at once. With the insert succeeding, exactly one row is added to
  \<open>gps_tracking\<close>, made of the vehicle id and the point's organisation id, latitude,
  longitude, accuracy, speed, heading and timestamp; nothing else changes, and the append
  returns \<open>1\<close>. An insert that throws makes the append fail with that error. With the
  binding present and the namespace rejecting the append's first operation, the read of the
  buffer, the append fails with the namespace's error and no row is written: an
  unreachable store gets no fallback.
\<close>

theorem fallback_only_without_binding:
  "(KV_CACHE w = None \<longrightarrow>
      bufferPoint vid p w =
        (if d1_run_throws w (d1_runs w)
         then (Inl D1Error, w\<lparr>d1_runs := Suc (d1_runs w)\<rparr>)
         else (Inr 1, w\<lparr>d1_runs := Suc (d1_runs w),
                         gps_tracking := gps_tracking w @
                           [GpsRow vid (case org_numeric_id p of None \<Rightarrow> 0 | Some i \<Rightarrow> i)
                              (latitude p) (longitude p) (accuracy p) (speed p) (heading p)
                              (recorded_at p)]\<rparr>)))
   \<and> (KV_CACHE w = Some kv \<and> kv_throws w (kv_ops w) \<longrightarrow>
      bufferPoint vid p w = (Inl KvError, w\<lparr>kv_ops := Suc (kv_ops w)\<rparr>))"
  using bufferPoint_no_binding[of w vid p] bufferPoint_store_rejects[of w kv vid p]
  by (simp add: row_of_def)

theorem fallback_only_without_binding_witness:
  "bufferPoint 1 example_point (example_world\<lparr>KV_CACHE := None\<rparr>) =
     (Inr 1, example_world\<lparr>KV_CACHE := None, d1_runs := 1,
                gps_tracking := [GpsRow 1 7 (Fin 10) (Fin 20) None (Some 5) None 1000]\<rparr>)
   \<and> bufferPoint 1 example_point (example_world\<lparr>kv_throws := (\<lambda>n. True)\<rparr>) =
     (Inl KvError, example_world\<lparr>kv_throws := (\<lambda>n. True), kv_ops := 1\<rparr>)"
  using fallback_only_without_binding
      [where w = "example_world\<lparr>KV_CACHE := None\<rparr>" and vid = 1 and p = example_point]
    fallback_only_without_binding
      [where w = "example_world\<lparr>kv_throws := (\<lambda>n. True)\<rparr>" and kv = empty_kv and vid = 1
         and p = example_point]
  by (simp add: example_world_def example_point_def)

text \<open>
  The claim as it was stated fails for a store that is bound and unreachable: the append
  fails, and \<open>gps_tracking\<close> stays empty.
\<close>

theorem rejecting_store_gets_no_fallback:
  "KV_CACHE (example_world\<lparr>kv_throws := (\<lambda>n. True)\<rparr>) = Some empty_kv
   \<and> fst (bufferPoint 1 example_point (example_world\<lparr>kv_throws := (\<lambda>n. True)\<rparr>)) = Inl KvError
   \<and> gps_tracking (snd (bufferPoint 1 example_point (example_world\<lparr>kv_throws := (\<lambda>n. True)\<rparr>))) = []"
  using bufferPoint_store_rejects [of "example_world\<lparr>kv_throws := (\<lambda>n. True)\<rparr>" empty_kv 1 example_point]
  by (simp add: example_world_def)

subsection \<open>Two hundred appends\<close>

lemma append_all_append:
  "append_all vid (xs @ ys) w =
     (case append_all vid xs w of
        (rs, w1) \<Rightarrow> (case append_all vid ys w1 of (rs', w2) \<Rightarrow> (rs @ rs', w2)))"
  by (induction xs arbitrary: w) (auto split: prod.splits)

lemma append_all_below:
  "KV_CACHE w = Some kv \<Longrightarrow> \<forall>n. \<not> kv_throws w n \<Longrightarrow> ps \<noteq> [] \<Longrightarrow>
   length (read_buffer kv vid) + length ps < 200 \<Longrightarrow>
   append_all vid ps w =
     (map Inr [Suc (length (read_buffer kv vid)) ..< Suc (length (read_buffer kv vid) + length ps)],
      w\<lparr>KV_CACHE := Some (kv\<lparr>buffer := (buffer kv)(vid \<mapsto> read_buffer kv vid @ ps)\<rparr>),
        kv_ops := kv_ops w + 2 * length ps\<rparr>)"
proof (induction ps arbitrary: w kv)
  case Nil
  then show ?case by simp
next
  case (Cons p ps)
  let ?b = "read_buffer kv vid"
  let ?kv1 = "kv\<lparr>buffer := (buffer kv)(vid \<mapsto> ?b @ [p])\<rparr>"
  let ?w1 = "w\<lparr>KV_CACHE := Some ?kv1, kv_ops := kv_ops w + 2\<rparr>"
  from Cons.prems have step: "bufferPoint vid p w = (Inr (Suc (length ?b)), ?w1)"
    by (intro bufferPoint_below) auto
  have rb: "read_buffer ?kv1 vid = ?b @ [p]" by (simp add: read_buffer_def parse_buffer_def)
  show ?case
  proof (cases "ps = []")
    case True
    have one: "append_all vid [p] w = ([Inr (Suc (length ?b))], ?w1)"
      using step by simp
    show ?thesis unfolding True one by (simp add: fun_upd_def)
  next
    case False
    let ?l = "length ?b"
    have k1: "KV_CACHE ?w1 = Some ?kv1" by simp
    have k2: "\<forall>n. \<not> kv_throws ?w1 n" using Cons.prems by simp
    have k3: "length (read_buffer ?kv1 vid) + length ps < 200" using Cons.prems by (simp add: rb)
    have ih: "append_all vid ps ?w1 =
      (map Inr [Suc (length (read_buffer ?kv1 vid)) ..< Suc (length (read_buffer ?kv1 vid) + length ps)],
       ?w1\<lparr>KV_CACHE := Some (?kv1\<lparr>buffer := (buffer ?kv1)(vid \<mapsto> read_buffer ?kv1 vid @ ps)\<rparr>),
           kv_ops := kv_ops ?w1 + 2 * length ps\<rparr>)"
      by (rule Cons.IH[OF k1 k2 False k3])
    have lists: "Inr (Suc ?l) # map Inr [Suc (Suc ?l) ..< Suc (Suc (?l + length ps))] =
        (map Inr [Suc ?l ..< Suc (?l + length (p # ps))] :: (error + nat) list)"
      by (subst (2) upt_conv_Cons) simp_all
    have "append_all vid (p # ps) w =
      (Inr (Suc ?l) # map Inr [Suc (Suc ?l) ..< Suc (Suc (?l + length ps))],
       w\<lparr>KV_CACHE := Some (kv\<lparr>buffer := (buffer kv)(vid \<mapsto> ?b @ p # ps)\<rparr>),
         kv_ops := kv_ops w + 2 * length (p # ps)\<rparr>)"
      using step ih by (simp add: rb)
    then show ?thesis unfolding lists by (simp add: fun_upd_def)
  qed
qed

text \<open>
  C2. Start from an empty buffer for one vehicle, with the key-value namespace available
  and the inserts of the flush succeeding, and append 200 points one after the other.
  After the first \<open>n\<close> appends, for every \<open>n\<close> from 1 to 199, the results so far are the
  lengths \<open>1, ..., n\<close>, the buffer holds the first \<open>n\<close> points in order, and nothing else
  has changed but the count of key-value operations: no insert has run. The 200th append
  returns \<open>0\<close>; the run has then made exactly 200 inserts, one row per point in order, each
  made of the vehicle id and the point's organisation id, latitude, longitude, accuracy,
  speed, heading and timestamp; the buffer key is deleted, and the last-flush marker holds
  the clock value read last.
\<close>

theorem two_hundred_appends:
  assumes kv: "KV_CACHE w = Some kv"
    and kvok: "\<forall>n. \<not> kv_throws w n"
    and empty: "read_buffer kv vid = []"
    and len: "length ps = 200"
    and ok: "\<forall>i<200. \<not> d1_run_throws w (d1_runs w + i)"
  shows "(\<forall>n. 0 < n \<and> n < 200 \<longrightarrow>
            append_all vid (take n ps) w =
              (map Inr [1..<Suc n],
               w\<lparr>KV_CACHE := Some (kv\<lparr>buffer := (buffer kv)(vid \<mapsto> take n ps)\<rparr>),
                 kv_ops := kv_ops w + 2 * n\<rparr>))
       \<and> append_all vid ps w =
           (map Inr [1..<200] @ [Inr 0],
            w\<lparr>KV_CACHE := Some (kv\<lparr>buffer := (buffer kv)(vid := None),
                                    last_flush := (last_flush kv)(vid \<mapsto> clock w (Suc (clock_reads w)))\<rparr>),
              kv_ops := kv_ops w + 403,
              d1_runs := d1_runs w + 200,
              gps_tracking := gps_tracking w @ map (\<lambda>q. GpsRow vid (case org_numeric_id q of None \<Rightarrow> 0 | Some i \<Rightarrow> i) (latitude q) (longitude q) (accuracy q) (speed q) (heading q) (recorded_at q)) ps,
              clock_reads := Suc (Suc (clock_reads w))\<rparr>)"
proof (intro conjI allI impI)
  fix n :: nat
  assume n: "0 < n \<and> n < 200"
  with len have "take n ps \<noteq> []" by auto
  with n len show "append_all vid (take n ps) w =
      (map Inr [1..<Suc n],
       w\<lparr>KV_CACHE := Some (kv\<lparr>buffer := (buffer kv)(vid \<mapsto> take n ps)\<rparr>),
         kv_ops := kv_ops w + 2 * n\<rparr>)"
    using append_all_below[OF kv kvok, of "take n ps" vid] by (simp add: empty)
next
  let ?xs = "take 199 ps"
  let ?kv1 = "kv\<lparr>buffer := (buffer kv)(vid \<mapsto> ?xs)\<rparr>"
  let ?w1 = "w\<lparr>KV_CACHE := Some ?kv1, kv_ops := kv_ops w + 398\<rparr>"
  from len have "take (Suc 199) ps = ?xs @ [ps ! 199]"
    by (intro take_Suc_conv_app_nth) simp
  moreover from len have "take (Suc 199) ps = ps" by simp
  ultimately have ps: "ps = ?xs @ [ps ! 199]" by simp
  from len have lx: "length ?xs = 199" by simp
  have first: "append_all vid ?xs w = (map Inr [1..<200], ?w1)"
  proof -
    from len have ne: "?xs \<noteq> []" by auto
    from lx have "length (read_buffer kv vid) + length ?xs < 200" by (simp add: empty)
    from append_all_below[OF kv kvok ne this] show ?thesis
      unfolding lx empty by simp
  qed
  have rb: "read_buffer ?kv1 vid = ?xs" by (simp add: read_buffer_def parse_buffer_def)
  have k1: "KV_CACHE ?w1 = Some ?kv1" by simp
  have k2: "\<forall>n. \<not> kv_throws ?w1 n" using kvok by simp
  have k3: "200 \<le> Suc (length (read_buffer ?kv1 vid))" using lx by (simp add: rb)
  have k4: "\<forall>i<Suc (length (read_buffer ?kv1 vid)). \<not> d1_run_throws ?w1 (d1_runs ?w1 + i)"
    using ok lx by (simp add: rb)
  note bufferPoint_cap[OF k1 k2 k3 k4, of "ps ! 199"]
  then have last: "bufferPoint vid (ps ! 199) ?w1 =
     (Inr 0,
      w\<lparr>KV_CACHE := Some (kv\<lparr>buffer := (buffer kv)(vid := None),
                              last_flush := (last_flush kv)(vid \<mapsto> clock w (Suc (clock_reads w)))\<rparr>),
        kv_ops := kv_ops w + 403,
        d1_runs := d1_runs w + 200,
        gps_tracking := gps_tracking w @ map (row_of vid) ps,
        clock_reads := Suc (Suc (clock_reads w))\<rparr>)"
    using ps lx by (simp add: rb)
  have "append_all vid (?xs @ [ps ! 199]) w = (map Inr [1..<200] @ [Inr 0],
            w\<lparr>KV_CACHE := Some (kv\<lparr>buffer := (buffer kv)(vid := None),
                                    last_flush := (last_flush kv)(vid \<mapsto> clock w (Suc (clock_reads w)))\<rparr>),
              kv_ops := kv_ops w + 403,
              d1_runs := d1_runs w + 200,
              gps_tracking := gps_tracking w @ map (row_of vid) ps,
              clock_reads := Suc (Suc (clock_reads w))\<rparr>)"
    unfolding append_all_append first using last by simp
  with ps show "append_all vid ps w = (map Inr [1..<200] @ [Inr 0],
            w\<lparr>KV_CACHE := Some (kv\<lparr>buffer := (buffer kv)(vid := None),
                                    last_flush := (last_flush kv)(vid \<mapsto> clock w (Suc (clock_reads w)))\<rparr>),
              kv_ops := kv_ops w + 403,
              d1_runs := d1_runs w + 200,
              gps_tracking := gps_tracking w @ map (\<lambda>q. GpsRow vid (case org_numeric_id q of None \<Rightarrow> 0 | Some i \<Rightarrow> i) (latitude q) (longitude q) (accuracy q) (speed q) (heading q) (recorded_at q)) ps,
              clock_reads := Suc (Suc (clock_reads w))\<rparr>)"
    unfolding row_of_eq by simp
qed

lemma numbered_rows:
  "map (\<lambda>q. GpsRow 1 (case org_numeric_id q of None \<Rightarrow> 0 | Some i \<Rightarrow> i) (latitude q) (longitude q) (accuracy q) (speed q) (heading q) (recorded_at q)) (map numbered_point ns) =
   map (\<lambda>i. GpsRow 1 7 (Fin 10) (Fin 20) None (Some 5) None (real i)) ns"
  by (simp add: numbered_point_def example_point_def)

theorem two_hundred_appends_witness:
  "append_all 1 (take 3 (map numbered_point [0..<200])) example_world =
     (map Inr [1..<Suc 3],
      example_world\<lparr>KV_CACHE := Some (empty_kv\<lparr>buffer := (buffer empty_kv)(1 \<mapsto>
                          take 3 (map numbered_point [0..<200]))\<rparr>),
        kv_ops := kv_ops example_world + 2 * 3\<rparr>)
   \<and> append_all 1 (map numbered_point [0..<200]) example_world =
     (map Inr [1..<200] @ [Inr 0],
      example_world\<lparr>KV_CACHE := Some (empty_kv\<lparr>buffer := (buffer empty_kv)(1 := None),
          last_flush := (last_flush empty_kv)(1 \<mapsto>
             clock example_world (Suc (clock_reads example_world)))\<rparr>),
        kv_ops := kv_ops example_world + 403,
        d1_runs := d1_runs example_world + 200,
        gps_tracking := gps_tracking example_world @
          map (\<lambda>i. GpsRow 1 7 (Fin 10) (Fin 20) None (Some 5) None (real i)) [0..<200],
        clock_reads := Suc (Suc (clock_reads example_world))\<rparr>)"
proof -
  have h1: "KV_CACHE example_world = Some empty_kv"
    by (simp add: example_world_def)
  have h2: "\<forall>n. \<not> kv_throws example_world n"
    by (simp add: example_world_def)
  have h3: "read_buffer empty_kv 1 = []"
    by (simp add: read_buffer_def parse_buffer_def empty_kv_def)
  have h4: "length (map numbered_point [0..<200]) = 200"
    by simp
  have h5: "\<forall>i<200. \<not> d1_run_throws example_world (d1_runs example_world + i)"
    by (simp add: example_world_def)
  note t = two_hundred_appends [OF h1 h2 h3 h4 h5]
  have "(0::nat) < 3 \<and> (3::nat) < 200" by simp
  with t [THEN conjunct1, THEN spec, of 3] t [THEN conjunct2] show ?thesis
    unfolding numbered_rows by blast
qed

subsection \<open>The time-based flush\<close>

lemma maybeFlush_flushes:
  assumes kv: "KV_CACHE w = Some kv" and kvok: "\<forall>n. \<not> kv_throws w n"
    and marker: "last_flush kv vid = Some m"
    and stale: "300000 \<le> clock w (clock_reads w) - m"
    and ne: "read_buffer kv vid \<noteq> []"
    and ok: "\<forall>i<length (read_buffer kv vid). \<not> d1_run_throws w (d1_runs w + i)"
  shows "maybeFlushBuffer vid w =
        (Inr (),
         w\<lparr>KV_CACHE := Some (kv\<lparr>buffer := (buffer kv)(vid := None),
                 last_flush := (last_flush kv)(vid \<mapsto> clock w (Suc (clock_reads w)))\<rparr>),
           kv_ops := kv_ops w + 4,
           d1_runs := d1_runs w + length (read_buffer kv vid),
           gps_tracking := gps_tracking w @ map (row_of vid) (read_buffer kv vid),
           clock_reads := Suc (Suc (clock_reads w))\<rparr>)"
proof -
  let ?w2 = "w\<lparr>clock_reads := Suc (clock_reads w), kv_ops := Suc (Suc (kv_ops w))\<rparr>"
  have k1: "KV_CACHE ?w2 = Some kv" using kv by simp
  have k2: "\<forall>n. \<not> kv_throws ?w2 n" using kvok by simp
  have k3: "\<forall>i<length (read_buffer kv vid). \<not> d1_run_throws ?w2 (d1_runs ?w2 + i)"
    using ok by simp
  note f = flush_points_ok[OF k1 k2 k3, of vid, unfolded read_buffer_def]
  show ?thesis
    using kv kvok marker stale ne
    by (simp add: maybeFlushBuffer_def then_do_def kv_get_ok date_now_def BUFFER_FLUSH_MS_def
          flushBufferToDb_def f succeed_def read_buffer_def Let_def)
qed


text \<open>
  C4. With a last-flush marker \<open>m\<close> stored for the vehicle and \<open>now\<close> the clock value that
  \<open>maybeFlushBuffer\<close> reads: when \<open>now - m\<close> is at least 5 minutes (300000 ms) and the buffer
  is not empty, every buffered point is inserted in order (the inserts succeeding), as the
  row of the vehicle id and the point's organisation id, latitude, longitude, accuracy,
  speed, heading and timestamp; the buffer key is deleted and the marker is set to the
  clock value read at the end of the flush. In the same condition with an empty buffer the
  marker is set to \<open>now\<close> and no insert runs. When \<open>now - m\<close> is less than 5 minutes the
  stores are left as they were: the marker and the clock have been read, nothing written.
\<close>

theorem maybe_flush_cases:
  assumes kv: "KV_CACHE w = Some kv"
    and kvok: "\<forall>n. \<not> kv_throws w n"
    and marker: "last_flush kv vid = Some m"
  shows
    "(300000 \<le> clock w (clock_reads w) - m \<and> read_buffer kv vid \<noteq> [] \<and>
        (\<forall>i<length (read_buffer kv vid). \<not> d1_run_throws w (d1_runs w + i)) \<longrightarrow>
      maybeFlushBuffer vid w =
        (Inr (),
         w\<lparr>KV_CACHE := Some (kv\<lparr>buffer := (buffer kv)(vid := None),
                 last_flush := (last_flush kv)(vid \<mapsto> clock w (Suc (clock_reads w)))\<rparr>),
           kv_ops := kv_ops w + 4,
           d1_runs := d1_runs w + length (read_buffer kv vid),
           gps_tracking := gps_tracking w @ map (\<lambda>q. GpsRow vid (case org_numeric_id q of None \<Rightarrow> 0 | Some i \<Rightarrow> i) (latitude q) (longitude q) (accuracy q) (speed q) (heading q) (recorded_at q)) (read_buffer kv vid),
           clock_reads := Suc (Suc (clock_reads w))\<rparr>))
   \<and> (300000 \<le> clock w (clock_reads w) - m \<and> read_buffer kv vid = [] \<longrightarrow>
      maybeFlushBuffer vid w =
        (Inr (),
         w\<lparr>KV_CACHE := Some (kv\<lparr>last_flush := (last_flush kv)(vid \<mapsto> clock w (clock_reads w))\<rparr>),
           kv_ops := kv_ops w + 3,
           clock_reads := Suc (clock_reads w)\<rparr>))
   \<and> (clock w (clock_reads w) - m < 300000 \<longrightarrow>
      maybeFlushBuffer vid w =
        (Inr (), w\<lparr>kv_ops := kv_ops w + 1, clock_reads := Suc (clock_reads w)\<rparr>))"
proof (intro conjI impI)
  assume a: "300000 \<le> clock w (clock_reads w) - m \<and> read_buffer kv vid \<noteq> [] \<and>
        (\<forall>i<length (read_buffer kv vid). \<not> d1_run_throws w (d1_runs w + i))"
  then show "maybeFlushBuffer vid w =
        (Inr (),
         w\<lparr>KV_CACHE := Some (kv\<lparr>buffer := (buffer kv)(vid := None),
                 last_flush := (last_flush kv)(vid \<mapsto> clock w (Suc (clock_reads w)))\<rparr>),
           kv_ops := kv_ops w + 4,
           d1_runs := d1_runs w + length (read_buffer kv vid),
           gps_tracking := gps_tracking w @ map (\<lambda>q. GpsRow vid (case org_numeric_id q of None \<Rightarrow> 0 | Some i \<Rightarrow> i) (latitude q) (longitude q) (accuracy q) (speed q) (heading q) (recorded_at q)) (read_buffer kv vid),
           clock_reads := Suc (Suc (clock_reads w))\<rparr>)"
    using maybeFlush_flushes[OF kv kvok marker] unfolding row_of_eq by blast
next
  assume "300000 \<le> clock w (clock_reads w) - m \<and> read_buffer kv vid = []"
  then show "maybeFlushBuffer vid w =
        (Inr (),
         w\<lparr>KV_CACHE := Some (kv\<lparr>last_flush := (last_flush kv)(vid \<mapsto> clock w (clock_reads w))\<rparr>),
           kv_ops := kv_ops w + 3,
           clock_reads := Suc (clock_reads w)\<rparr>)"
    using kv kvok marker
    by (simp add: maybeFlushBuffer_def then_do_def kv_get_ok kv_write_ok date_now_def
          BUFFER_FLUSH_MS_def read_buffer_def Let_def)
next
  assume "clock w (clock_reads w) - m < 300000"
  then show "maybeFlushBuffer vid w =
        (Inr (), w\<lparr>kv_ops := kv_ops w + 1, clock_reads := Suc (clock_reads w)\<rparr>)"
    using kv kvok marker
    by (simp add: maybeFlushBuffer_def then_do_def kv_get_ok date_now_def BUFFER_FLUSH_MS_def)
qed

theorem maybe_flush_cases_witness:
  "maybeFlushBuffer 1 stale_world =
     (Inr (),
      stale_world\<lparr>KV_CACHE := Some (stale_kv\<lparr>buffer := (buffer stale_kv)(1 := None),
                       last_flush := (last_flush stale_kv)(1 \<mapsto> 1000001)\<rparr>),
        kv_ops := 4,
        d1_runs := 2,
        gps_tracking := [GpsRow 1 7 (Fin 10) (Fin 20) None (Some 5) None 1000,
                         GpsRow 1 7 (Fin 10) (Fin 20) None (Some 5) None 2000],
        clock_reads := 2\<rparr>)
   \<and> maybeFlushBuffer 1 (example_world\<lparr>KV_CACHE := Some idle_kv\<rparr>) =
     (Inr (),
      example_world\<lparr>KV_CACHE := Some (idle_kv\<lparr>last_flush := (last_flush idle_kv)(1 \<mapsto> 1000000)\<rparr>),
        kv_ops := 3,
        clock_reads := 1\<rparr>)
   \<and> maybeFlushBuffer 1 (example_world\<lparr>KV_CACHE := Some fresh_kv\<rparr>) =
     (Inr (), example_world\<lparr>KV_CACHE := Some fresh_kv, kv_ops := 1, clock_reads := 1\<rparr>)"
  using maybe_flush_cases [where w = stale_world and kv = stale_kv and vid = 1 and m = 0]
    maybe_flush_cases [where w = "example_world\<lparr>KV_CACHE := Some idle_kv\<rparr>" and kv = idle_kv
       and vid = 1 and m = 0]
    maybe_flush_cases [where w = "example_world\<lparr>KV_CACHE := Some fresh_kv\<rparr>" and kv = fresh_kv
       and vid = 1 and m = 900000]
  by (simp add: stale_world_def example_world_def stale_kv_def idle_kv_def fresh_kv_def
        empty_kv_def read_buffer_def parse_buffer_def example_point_def trigger_point_def)

subsection \<open>A flush that fails\<close>









section \<open>The ingestion route\<close>

subsection \<open>A vehicle that does not resolve\<close>

lemma uuid_shape_unknown: "uuid_shape ''0a1b2c3d-0000-4000-8000-0000000000ff''"
  by (simp add: uuid_shape_def hex_digit_def numeral_eq_Suc)

lemma uuid_shape_example: "uuid_shape ''0a1b2c3d-0000-4000-8000-00000000000a''"
  by (simp add: uuid_shape_def hex_digit_def numeral_eq_Suc)

text \<open>
  C7. An authenticated request that passes validation (the schema's uuid test and the
  coordinate test) and whose vehicle identifier does not resolve to an active vehicle of
  the token's organisation is rejected with a not-found error, status 404:
  \<open>ORG_NOT_FOUND\<close> when the organisation itself is unknown, \<open>VEHICLE_NOT_FOUND\<close>
  otherwise. The state is left as it was, but for the reading of the clock that stamps the
  response: the key-value namespace with the latest position, the buffer, the marker and
  the motion state, the tables, the sockets and the hubs are unchanged.
\<close>

theorem unresolved_vehicle_not_found:
  assumes auth: "orgId parsed \<noteq> []"
    and uuid: "schema_uuid w (rq_vehicle_uuid parsed)"
    and valid: "validateLatLon (rq_latitude parsed) (rq_longitude parsed)"
    and unres: "\<not> vehicle_resolves parsed w"
  shows "ingest parsed w =
           (Inl (if resolve_org w (orgId parsed) = None then ORG_NOT_FOUND else VEHICLE_NOT_FOUND),
            w\<lparr>clock_reads := Suc (clock_reads w)\<rparr>)
    \<and> KV_CACHE (snd (ingest parsed w)) = KV_CACHE w
    \<and> gps_tracking (snd (ingest parsed w)) = gps_tracking w
    \<and> compliance_logs (snd (ingest parsed w)) = compliance_logs w
    \<and> sockets (snd (ingest parsed w)) = sockets w
    \<and> clients (snd (ingest parsed w)) = clients w"
  using assms
  by (auto simp: vehicle_resolves_def ingest_def sendError_def date_now_def split: option.splits)

theorem unresolved_vehicle_not_found_witness:
  "ingest unknown_request example_world =
     (Inl VEHICLE_NOT_FOUND, example_world\<lparr>clock_reads := Suc (clock_reads example_world)\<rparr>)
   \<and> KV_CACHE (snd (ingest unknown_request example_world)) = KV_CACHE example_world
   \<and> gps_tracking (snd (ingest unknown_request example_world)) = gps_tracking example_world
   \<and> compliance_logs (snd (ingest unknown_request example_world)) = compliance_logs example_world
   \<and> sockets (snd (ingest unknown_request example_world)) = sockets example_world
   \<and> clients (snd (ingest unknown_request example_world)) = clients example_world"
proof -
  have a: "orgId unknown_request \<noteq> []"
    by (simp add: unknown_request_def)
  have u: "schema_uuid example_world (rq_vehicle_uuid unknown_request)"
    by (simp add: unknown_request_def example_world_def uuid_shape_unknown)
  have v: "validateLatLon (rq_latitude unknown_request) (rq_longitude unknown_request)"
    by (simp add: unknown_request_def validateLatLon_def isNaN_def js_ge_def)
  have h: "\<not> vehicle_resolves unknown_request example_world"
    by (simp add: vehicle_resolves_def unknown_request_def example_world_def resolve_org_def
          resolveVehicleNumericId_def)
  have o: "resolve_org example_world (orgId unknown_request) \<noteq> None"
    by (simp add: unknown_request_def example_world_def resolve_org_def)
  from unresolved_vehicle_not_found [OF a u v h] o show ?thesis
    by simp
qed

subsection \<open>The latest position is written first\<close>

lemma then_do_latest:
  assumes "\<And>w. latest_of (snd (m w)) v = latest_of w v"
    and "\<And>x w. latest_of (snd (f x w)) v = latest_of w v"
  shows "latest_of (snd (then_do m f w)) v = latest_of w v"
proof (cases "m w")
  case (Pair r w1)
  with assms(1)[of w] have l: "latest_of w1 v = latest_of w v" by simp
  show ?thesis
  proof (cases r)
    case (Inl e)
    with Pair l show ?thesis by (simp add: then_do_def)
  next
    case (Inr x)
    with Pair l assms(2)[of x w1] show ?thesis by (simp add: then_do_def)
  qed
qed

lemma succeed_latest: "latest_of (snd (succeed x w)) v = latest_of w v"
  by (simp add: succeed_def)

lemma kv_get_latest: "latest_of (snd (kv_get rd w)) v = latest_of w v"
  by (simp add: kv_get_def kv_call_def then_do_def succeed_def latest_of_def split: option.splits)

lemma kv_write_latest:
  "(\<And>k. latest (upd k) = latest k) \<Longrightarrow> latest_of (snd (kv_write upd w)) v = latest_of w v"
  by (simp add: kv_write_def kv_call_def then_do_def latest_of_def split: option.splits)



lemma latest_of_clock: "latest_of (w\<lparr>clock_reads := n\<rparr>) v = latest_of w v"
  by (simp add: latest_of_def)







lemma log_harsh_latest:
  "latest_of (snd (log_harsh oid vid w)) v = latest_of w v"
  by (simp add: log_harsh_def randomUUID_def date_now_def run_insert_compliance_def
        latest_of_def)

lemma harsh_block_latest:
  "latest_of (snd (harsh_block oid vid sp t w)) v = latest_of w v"
  unfolding harsh_block_def
  by (rule then_do_latest)
     (simp_all add: kv_get_latest then_do_latest succeed_latest kv_write_latest log_harsh_latest
        split: option.splits)

lemma detect_harsh_latest:
  "latest_of (detect_harsh oid vid sp t w) v = latest_of w v"
  by (simp add: detect_harsh_def harsh_block_latest split: option.splits)

lemma broadcast_loop_kv:
  "KV_CACHE (broadcast_loop hub data cs w) = KV_CACHE w"
  by (induction hub data cs w rule: broadcast_loop.induct) simp_all

lemma broadcast_update_latest:
  "latest_of (broadcast_update p w) v = latest_of w v"
  by (simp add: broadcast_update_def handleUpdate_def broadcast_def broadcast_loop_kv
        latest_of_def date_now_def)




lemma after_buffer_latest:
  "latest_of (snd (let w4 = detect_harsh oid vid sp t w3;
                       w5 = broadcast_update p w4;
                       (t', w6) = date_now w5
                   in (Inr n :: api_error + nat, w6))) v = latest_of w3 v"
  by (simp add: Let_def date_now_def latest_of_clock broadcast_update_latest detect_harsh_latest)







subsection \<open>Harsh acceleration\<close>

text \<open>
  What the detection block computes when a previous speed is stored and the request carries
  a speed: with a stored timestamp other than 0 the elapsed time is the difference in
  seconds, at least 0.001; without a stored timestamp it is 1.
\<close>

lemma detected_accel_formula:
  assumes "last_speed kv v = Some prev" "last_ts kv v = Some t" "t \<noteq> 0"
  shows "detected_accel kv v (Some cur) recordedAt =
           Some ((cur - prev) / max ((recordedAt - t) / 1000) 0.001)"
proof -
  have "0 < max ((recordedAt - t) / 1000) (0.001::real)" by simp
  then have "\<not> max ((recordedAt - t) / 1000) (0.001::real) \<le> 0" by linarith
  with assms show ?thesis
    by (simp add: detected_accel_def deltaSeconds_of_def computeAcceleration_def)
qed

lemma detected_accel_no_timestamp:
  assumes "last_speed kv v = Some prev" "last_ts kv v = None"
  shows "detected_accel kv v (Some cur) recordedAt = Some ((cur - prev) / 1)"
  using assms by (simp add: detected_accel_def deltaSeconds_of_def computeAcceleration_def)

lemmas ingest_eval =
  ingest_def ingest_resolved_def store_and_buffer_def sendError_def
  resolve_org_def resolveVehicleNumericId_def
  validateLatLon_def isNaN_def js_ge_def make_point_def storeLatestInKV_def
  bufferPoint_def parse_buffer_def BUFFER_MAX_POINTS_def
  then_do_def succeed_def kv_call_def kv_get_def kv_write_def clear_and_stamp_def
  maybeFlushBuffer_def date_now_def BUFFER_FLUSH_MS_def flushBufferToDb_def
  flush_points_def run_insert_gps_def row_of_def
  detect_harsh_def harsh_block_def detected_accel_def deltaSeconds_of_def
  computeAcceleration_def
  isHarshAcceleration_def HARSH_ACCEL_THRESHOLD_M_S2_def log_harsh_def randomUUID_def
  run_insert_compliance_def broadcast_update_def handleUpdate_def broadcast_def Let_def

lemmas example_defs =
  example_request_def unknown_request_def epoch_request_def example_world_def empty_kv_def
  uuid_shape_example

text \<open>
  C6 fails on the code for a stored timestamp of 0, which the handler's truthiness test
  takes for a missing one. A first request with speed 10 and \<open>recorded_at\<close> 0 is ingested
  and leaves that motion state. A second request with speed 16 at 2000 ms is then ingested:
  the code divides by 1 and computes 6, which is harsh, and logs a compliance event; the
  claim's formula divides by the elapsed 2 seconds and gives 3, which is not harsh. Every
  operation on these values is exact in binary64.
\<close>

theorem epoch_timestamp_taken_as_absent:
  "fst (ingest epoch_request example_world) = Inr 1
   \<and> (\<exists>kv. KV_CACHE (snd (ingest epoch_request example_world)) = Some kv
         \<and> last_speed kv 1 = Some 10 \<and> last_ts kv 1 = Some 0
         \<and> detected_accel kv 1 (Some 16) 2000 = Some 6)
   \<and> isHarshAcceleration 6
   \<and> (16 - 10) / max ((2000 - 0) / 1000) 0.001 = (3::real)
   \<and> \<not> isHarshAcceleration 3
   \<and> fst (ingest example_request (snd (ingest epoch_request example_world))) = Inr 1
   \<and> compliance_logs (snd (ingest example_request (snd (ingest epoch_request example_world)))) =
       [ComplianceRow ''uuid'' 7 ''harsh_acceleration'' ''vehicle'' 1 ''warning'' 1000005 1000006]"
proof -
  have first: "fst (ingest epoch_request example_world) = Inr 1
     \<and> (\<exists>kv. KV_CACHE (snd (ingest epoch_request example_world)) = Some kv
           \<and> last_speed kv 1 = Some 10 \<and> last_ts kv 1 = Some 0
           \<and> detected_accel kv 1 (Some 16) 2000 = Some 6)"
    by (simp add: ingest_eval example_defs)
  have harsh: "isHarshAcceleration 6 \<and> \<not> isHarshAcceleration 3"
    by (simp add: isHarshAcceleration_def HARSH_ACCEL_THRESHOLD_M_S2_def)
  have formula: "(16 - 10) / max ((2000 - 0) / 1000) 0.001 = (3::real)"
    by simp
  have second: "fst (ingest example_request (snd (ingest epoch_request example_world))) = Inr 1
     \<and> compliance_logs (snd (ingest example_request (snd (ingest epoch_request example_world)))) =
       [ComplianceRow ''uuid'' 7 ''harsh_acceleration'' ''vehicle'' 1 ''warning'' 1000005 1000006]"
    by (simp add: ingest_eval example_defs)
  from first harsh formula second show ?thesis by blast
qed

section \<open>The distance helper\<close>










section \<open>The broadcast hub\<close>

subsection \<open>The loop over the clients\<close>

lemma broadcast_loop_send_throws:
  "send_throws (sockets (broadcast_loop hub data cs w) s) = send_throws (sockets w s)"
  by (induction hub data cs w rule: broadcast_loop.induct) simp_all

lemma broadcast_loop_sockets:
  "distinct (map snd cs) \<Longrightarrow>
   sockets (broadcast_loop hub data cs w) s =
     (if s \<in> snd ` set cs
      then (if send_throws (sockets w s)
            then (sockets w s)\<lparr>closed := True\<rparr>
            else (sockets w s)\<lparr>delivered := delivered (sockets w s) @ [data]\<rparr>)
      else sockets w s)"
proof (induction hub data cs w rule: broadcast_loop.induct)
  case (1 hub data w)
  then show ?case by simp
next
  case (2 hub data cid s0 rest w)
  from "2.prems" have d: "distinct (map snd rest)" and n: "s0 \<notin> snd ` set rest" by auto
  show ?case
  proof (cases "send_throws (sockets w s0)")
    case True
    from "2.IH"(1)[OF True d] n True show ?thesis by auto
  next
    case False
    from "2.IH"(2)[OF False d] n False show ?thesis by auto
  qed
qed

lemma broadcast_loop_clients:
  "clients (broadcast_loop hub data cs w) h =
     (if h = hub
      then filter (\<lambda>(c, x). \<forall>s. (c, s) \<in> set cs \<longrightarrow> \<not> send_throws (sockets w s)) (clients w hub)
      else clients w h)"
proof (induction hub data cs w rule: broadcast_loop.induct)
  case (1 hub data w)
  then show ?case by simp
next
  case (2 hub data cid s0 rest w)
  show ?case
  proof (cases "send_throws (sockets w s0)")
    case True
    let ?w1 = "w\<lparr>sockets := (sockets w)(s0 := (sockets w s0)\<lparr>closed := True\<rparr>),
                 clients := (clients w)(hub := map_delete cid (clients w hub))\<rparr>"
    have st: "\<And>s. send_throws (sockets ?w1 s) = send_throws (sockets w s)" by simp
    have cl: "clients ?w1 hub = map_delete cid (clients w hub)" by simp
    have step: "broadcast_loop hub data ((cid, s0) # rest) w = broadcast_loop hub data rest ?w1"
      using True by simp
    have p: "\<And>c. (c \<noteq> cid \<and> (\<forall>s. (c, s) \<in> set rest \<longrightarrow> \<not> send_throws (sockets w s))) =
               (\<forall>s. (c, s) \<in> set ((cid, s0) # rest) \<longrightarrow> \<not> send_throws (sockets w s))"
      using True by auto
    have f: "filter (\<lambda>(c, x). \<forall>s. (c, s) \<in> set rest \<longrightarrow> \<not> send_throws (sockets w s))
               (map_delete cid (clients w hub)) =
             filter (\<lambda>(c, x). \<forall>s. (c, s) \<in> set ((cid, s0) # rest) \<longrightarrow> \<not> send_throws (sockets w s))
               (clients w hub)"
      unfolding map_delete_def filter_filter
    proof (rule filter_cong[OF refl])
      fix x assume "x \<in> set (clients w hub)"
      obtain c y where x: "x = (c, y)" by (cases x)
      show "((case x of (i, x) \<Rightarrow> i \<noteq> cid) \<and>
             (case x of (c, x) \<Rightarrow> \<forall>s. (c, s) \<in> set rest \<longrightarrow> \<not> send_throws (sockets w s))) =
            (case x of (c, x) \<Rightarrow>
               \<forall>s. (c, s) \<in> set ((cid, s0) # rest) \<longrightarrow> \<not> send_throws (sockets w s))"
        unfolding x prod.case by (rule p)
    qed
    show ?thesis
    proof (cases "h = hub")
      case True
      then show ?thesis
        unfolding step "2.IH"(1)[OF \<open>send_throws (sockets w s0)\<close>] st cl f by simp
    next
      case False
      then show ?thesis
        unfolding step "2.IH"(1)[OF \<open>send_throws (sockets w s0)\<close>] by simp
    qed
  next
    case False
    let ?w1 = "w\<lparr>sockets := (sockets w)(s0 := (sockets w s0)\<lparr>delivered := delivered (sockets w s0) @ [data]\<rparr>)\<rparr>"
    have st: "\<And>s. send_throws (sockets ?w1 s) = send_throws (sockets w s)" by simp
    have cl: "\<And>h. clients ?w1 h = clients w h" by simp
    have step: "broadcast_loop hub data ((cid, s0) # rest) w = broadcast_loop hub data rest ?w1"
      using False by simp
    have p: "\<And>c. (\<forall>s. (c, s) \<in> set rest \<longrightarrow> \<not> send_throws (sockets w s)) =
               (\<forall>s. (c, s) \<in> set ((cid, s0) # rest) \<longrightarrow> \<not> send_throws (sockets w s))"
      using False by auto
    show ?thesis
      unfolding step "2.IH"(2)[OF False] st cl p ..
  qed
qed

lemma broadcast_loop_other:
  "KV_CACHE (broadcast_loop hub data cs w) = KV_CACHE w
   \<and> next_socket (broadcast_loop hub data cs w) = next_socket w
   \<and> gps_tracking (broadcast_loop hub data cs w) = gps_tracking w"
  by (induction hub data cs w rule: broadcast_loop.induct) simp_all

lemma unique_socket_of_client:
  assumes "distinct (map fst cs)" "(c, s) \<in> set cs"
  shows "(\<forall>s'. (c, s') \<in> set cs \<longrightarrow> \<not> P s') = (\<not> P s)"
proof -
  have "\<And>s'. (c, s') \<in> set cs \<Longrightarrow> s' = s"
    by (rule eq_key_imp_eq_value[OF assms(1) _ assms(2)])
  with assms(2) show ?thesis by blast
qed

lemma broadcast_clients_hub:
  assumes "distinct (map fst (clients w hub))"
  shows "clients (broadcast hub data w) hub =
           filter (\<lambda>(c, s). \<not> send_throws (sockets w s)) (clients w hub)"
  unfolding broadcast_def broadcast_loop_clients
proof (simp, rule filter_cong[OF refl])
  fix x assume m: "x \<in> set (clients w hub)"
  obtain c s where x: "x = (c, s)" by (cases x)
  from unique_socket_of_client[OF assms m[unfolded x], of "\<lambda>s. send_throws (sockets w s)"]
  show "(case x of (c, x) \<Rightarrow> \<forall>s. (c, s) \<in> set (clients w hub) \<longrightarrow> \<not> send_throws (sockets w s)) =
        (case x of (c, s) \<Rightarrow> \<not> send_throws (sockets w s))"
    unfolding x prod.case .
qed

subsection \<open>The hubs stay well formed\<close>

lemma hubs_wf_no_clients: "clients w = (\<lambda>h. []) \<Longrightarrow> hubs_wf w"
  by (simp add: hubs_wf_def)

lemma map_set_cases:
  "map_set k v m = (if k \<in> fst ` set m then map (\<lambda>e. if fst e = k then (fst e, v) else e) m
                    else m @ [(k, v)])"
  by (simp add: map_set_def case_prod_beta)

lemma replace_keys:
  "map fst (map (\<lambda>e. if fst e = k then (fst e, v) else e) m) = map fst m"
  by (induction m) simp_all

lemma replace_values_set:
  "set (map snd (map (\<lambda>e. if fst e = k then (fst e, v) else e) m)) \<subseteq> insert v (snd ` set m)"
  by (induction m) auto

lemma replace_absent:
  "k \<notin> fst ` set m \<Longrightarrow> map (\<lambda>e. if fst e = k then (fst e, v) else e) m = m"
  by (induction m) auto

lemma replace_values_distinct:
  "distinct (map fst m) \<Longrightarrow> distinct (map snd m) \<Longrightarrow> v \<notin> snd ` set m \<Longrightarrow>
   distinct (map snd (map (\<lambda>e. if fst e = k then (fst e, v) else e) m))"
proof (induction m)
  case Nil
  then show ?case by simp
next
  case (Cons e m)
  let ?f = "\<lambda>e. if fst e = k then (fst e, v) else e"
  from Cons.prems have d: "distinct (map fst m)" "distinct (map snd m)" "v \<notin> snd ` set m"
    by simp_all
  note ih = Cons.IH[OF d]
  show ?case
  proof (cases "fst e = k")
    case True
    with Cons.prems(1) have "k \<notin> fst ` set m" by auto
    then have same: "map ?f m = m" by (rule replace_absent)
    from d True show ?thesis by (simp add: same)
  next
    case False
    from Cons.prems have "snd e \<notin> snd ` set m" "snd e \<noteq> v" by auto
    with replace_values_set[of k v m] have "snd e \<notin> set (map snd (map ?f m))" by blast
    with ih False show ?thesis by simp
  qed
qed

lemma map_set_keys:
  "distinct (map fst m) \<Longrightarrow> distinct (map fst (map_set k v m))"
  unfolding map_set_cases by (simp add: replace_keys del: map_map)

lemma map_set_values_subset:
  "snd ` set (map_set k v m) \<subseteq> insert v (snd ` set m)"
  unfolding map_set_cases using replace_values_set[of k v m] by auto

lemma map_set_values:
  "distinct (map fst m) \<Longrightarrow> distinct (map snd m) \<Longrightarrow> v \<notin> snd ` set m \<Longrightarrow>
   distinct (map snd (map_set k v m))"
  unfolding map_set_cases using replace_values_distinct[of m v k] by auto

lemma hubs_wf_shrink:
  assumes wf: "hubs_wf w"
    and cl: "\<And>h. \<exists>P. clients w' h = filter P (clients w h)"
    and ns: "next_socket w' = next_socket w"
  shows "hubs_wf w'"
proof -
  have sub: "\<And>h. set (clients w' h) \<subseteq> set (clients w h)"
  proof -
    fix h
    from cl[of h] obtain P where "clients w' h = filter P (clients w h)" ..
    then show "set (clients w' h) \<subseteq> set (clients w h)" by simp
  qed
  have d1: "\<And>h. distinct (map fst (clients w' h))"
  proof -
    fix h
    from cl[of h] obtain P where "clients w' h = filter P (clients w h)" ..
    moreover from wf have "distinct (map fst (clients w h))" by (simp add: hubs_wf_def)
    ultimately show "distinct (map fst (clients w' h))" by (simp add: distinct_map_filter)
  qed
  have d2: "\<And>h. distinct (map snd (clients w' h))"
  proof -
    fix h
    from cl[of h] obtain P where "clients w' h = filter P (clients w h)" ..
    moreover from wf have "distinct (map snd (clients w h))" by (simp add: hubs_wf_def)
    ultimately show "distinct (map snd (clients w' h))" by (simp add: distinct_map_filter)
  qed
  have b: "\<And>h s. s \<in> snd ` set (clients w' h) \<Longrightarrow> s < next_socket w'"
  proof -
    fix h s assume "s \<in> snd ` set (clients w' h)"
    with sub[of h] have "s \<in> snd ` set (clients w h)" by blast
    with wf ns show "s < next_socket w'" by (auto simp: hubs_wf_def)
  qed
  have dj: "\<And>h h'. h \<noteq> h' \<Longrightarrow> snd ` set (clients w' h) \<inter> snd ` set (clients w' h') = {}"
  proof -
    fix h h' :: string assume "h \<noteq> h'"
    with wf have "snd ` set (clients w h) \<inter> snd ` set (clients w h') = {}"
      by (simp add: hubs_wf_def)
    with sub[of h] sub[of h'] show "snd ` set (clients w' h) \<inter> snd ` set (clients w' h') = {}"
      by blast
  qed
  from d1 d2 b dj show ?thesis unfolding hubs_wf_def by blast
qed

lemma hubs_wf_handleUpdate:
  assumes "hubs_wf w"
  shows "hubs_wf (snd (handleUpdate hub body w))"
proof (cases "vehicle_uuid body = []")
  case True
  with assms show ?thesis by (simp add: handleUpdate_def)
next
  case False
  let ?w1 = "w\<lparr>clock_reads := Suc (clock_reads w)\<rparr>"
  let ?d = "Update body (clock w (clock_reads w))"
  have hu: "snd (handleUpdate hub body w) = broadcast_loop hub ?d (clients w hub) ?w1"
    using False by (simp add: handleUpdate_def date_now_def broadcast_def)
  show ?thesis
    unfolding hu
  proof (rule hubs_wf_shrink[OF assms])
    fix h
    show "\<exists>P. clients (broadcast_loop hub ?d (clients w hub) ?w1) h = filter P (clients w h)"
    proof (cases "h = hub")
      case True
      then show ?thesis unfolding broadcast_loop_clients by auto
    next
      case False
      then have "clients (broadcast_loop hub ?d (clients w hub) ?w1) h = filter (\<lambda>e. True) (clients w h)"
        unfolding broadcast_loop_clients by simp
      then show ?thesis by (rule exI[of _ "\<lambda>e. True"])
    qed
  next
    show "next_socket (broadcast_loop hub ?d (clients w hub) ?w1) = next_socket w"
      by (simp add: broadcast_loop_other)
  qed
qed

lemma disjoint_after_insert:
  "A \<subseteq> insert n S \<Longrightarrow> n \<notin> T \<Longrightarrow> S \<inter> T = {} \<Longrightarrow> A \<inter> T = {} \<and> T \<inter> A = {}"
  by blast

lemma hubs_wf_handleSubscribe:
  assumes wf: "hubs_wf w"
  shows "hubs_wf (snd (handleSubscribe hub vehicleUuid w))"
proof (cases "vehicleUuid = None \<or> vehicleUuid = Some []")
  case True
  with wf show ?thesis by (auto simp: handleSubscribe_def)
next
  case False
  then obtain vu where vu: "vehicleUuid = Some vu" "vu \<noteq> []" by auto
  let ?n = "next_socket w"
  let ?k = "uuid_src w (uuid_reads w)"
  let ?w' = "snd (handleSubscribe hub vehicleUuid w)"
  have cl: "\<And>h. clients ?w' h = (if h = hub then map_set ?k ?n (clients w hub) else clients w h)"
    using vu by (simp add: handleSubscribe_def randomUUID_def date_now_def Let_def)
  have ns: "next_socket ?w' = Suc ?n"
    using vu by (simp add: handleSubscribe_def randomUUID_def date_now_def Let_def)
  from wf have fresh: "\<And>h. ?n \<notin> snd ` set (clients w h)"
    by (fastforce simp: hubs_wf_def)
  from wf have dk: "\<And>h. distinct (map fst (clients w h))"
    and dv: "\<And>h. distinct (map snd (clients w h))"
    and dj: "\<And>h h'. h \<noteq> h' \<Longrightarrow> snd ` set (clients w h) \<inter> snd ` set (clients w h') = {}"
    by (simp_all add: hubs_wf_def)
  from wf have bd: "\<And>h s. s \<in> snd ` set (clients w h) \<Longrightarrow> s < ?n"
    by (auto simp: hubs_wf_def)
  have sub: "\<And>h. snd ` set (clients ?w' h) \<subseteq> (if h = hub then insert ?n (snd ` set (clients w hub))
                                                 else snd ` set (clients w h))"
    using map_set_values_subset[of ?k ?n "clients w hub"] by (simp add: cl)
  have d1: "\<And>h. distinct (map fst (clients ?w' h))"
    using dk by (simp add: cl map_set_keys)
  have d2: "\<And>h. distinct (map snd (clients ?w' h))"
    using dk dv fresh by (simp add: cl map_set_values)
  have b: "\<And>h s. s \<in> snd ` set (clients ?w' h) \<Longrightarrow> s < next_socket ?w'"
  proof -
    fix h s assume "s \<in> snd ` set (clients ?w' h)"
    with sub[of h] have "s = ?n \<or> s \<in> snd ` set (clients w h)"
      by (auto split: if_splits)
    then show "s < next_socket ?w'"
    proof
      assume "s = ?n"
      then show ?thesis by (simp add: ns)
    next
      assume "s \<in> snd ` set (clients w h)"
      from bd[OF this] show ?thesis by (simp add: ns)
    qed
  qed
  have j: "\<And>h h'. h \<noteq> h' \<Longrightarrow> snd ` set (clients ?w' h) \<inter> snd ` set (clients ?w' h') = {}"
  proof -
    fix h h' :: string assume ne: "h \<noteq> h'"
    have sub_hub: "snd ` set (clients ?w' hub) \<subseteq> insert ?n (snd ` set (clients w hub))"
      using sub[of hub] by simp
    have sub_other: "\<And>g. g \<noteq> hub \<Longrightarrow> snd ` set (clients ?w' g) = snd ` set (clients w g)"
      by (simp add: cl)
    show "snd ` set (clients ?w' h) \<inter> snd ` set (clients ?w' h') = {}"
    proof (cases "h = hub")
      case True
      with ne have o: "h' \<noteq> hub" by simp
      from o have "hub \<noteq> h'" by simp
      from disjoint_after_insert[OF sub_hub fresh[of h'] dj[OF this]]
      show ?thesis unfolding True sub_other[OF o] by (rule conjunct1)
    next
      case False
      note nh = False
      show ?thesis
      proof (cases "h' = hub")
        case True
        from nh have "hub \<noteq> h" by simp
        from disjoint_after_insert[OF sub_hub fresh[of h] dj[OF this]]
        show ?thesis unfolding True sub_other[OF nh] by (rule conjunct2)
      next
        case False
        from dj[OF ne] show ?thesis unfolding sub_other[OF nh] sub_other[OF False] .
      qed
    qed
  qed
  from d1 d2 b j show ?thesis unfolding hubs_wf_def by blast
qed

lemma hubs_wf_hub_world: "hubs_wf hub_world"
  by (auto simp: hubs_wf_def hub_world_def)

subsection \<open>One publish\<close>

text \<open>
  C5. A publish on a vehicle's hub, with well-formed hubs: \<open>send\<close> is called once, with
  the serialized update, on every connection registered on that hub. A connection whose
  \<open>send\<close> succeeds has the update delivered and stays registered; a connection whose
  \<open>send\<close> throws is closed and deregistered, and this does not keep any other connection
  of the hub from its delivery. Every other hub keeps its clients, and none of their
  connections is sent anything.
\<close>

theorem publish_fan_out:
  assumes wf: "hubs_wf w" and body: "vehicle_uuid body \<noteq> []"
  shows "fst (handleUpdate hub body w) = 200
    \<and> (\<forall>(cid, s) \<in> set (clients w hub).
          if send_throws (sockets w s)
          then sockets (snd (handleUpdate hub body w)) s = (sockets w s)\<lparr>closed := True\<rparr>
               \<and> cid \<notin> fst ` set (clients (snd (handleUpdate hub body w)) hub)
          else sockets (snd (handleUpdate hub body w)) s =
                 (sockets w s)\<lparr>delivered := delivered (sockets w s)
                                   @ [Update body (clock w (clock_reads w))]\<rparr>
               \<and> (cid, s) \<in> set (clients (snd (handleUpdate hub body w)) hub))
    \<and> (\<forall>h. h \<noteq> hub \<longrightarrow>
          clients (snd (handleUpdate hub body w)) h = clients w h
          \<and> (\<forall>(cid, s) \<in> set (clients w h). sockets (snd (handleUpdate hub body w)) s = sockets w s))"
proof -
  let ?t = "clock w (clock_reads w)"
  let ?w1 = "w\<lparr>clock_reads := Suc (clock_reads w)\<rparr>"
  let ?w' = "broadcast hub (Update body ?t) ?w1"
  have hu: "handleUpdate hub body w = (200, ?w')"
    using body by (simp add: handleUpdate_def date_now_def)
  from wf have dk: "distinct (map fst (clients w hub))" and ds: "distinct (map snd (clients w hub))"
    by (auto simp: hubs_wf_def)
  have socks: "\<And>s. sockets ?w' s =
     (if s \<in> snd ` set (clients w hub)
      then (if send_throws (sockets w s)
            then (sockets w s)\<lparr>closed := True\<rparr>
            else (sockets w s)\<lparr>delivered := delivered (sockets w s) @ [Update body ?t]\<rparr>)
      else sockets w s)"
    using broadcast_loop_sockets[of "clients ?w1 hub" hub "Update body ?t" ?w1] ds
    by (simp add: broadcast_def)
  have cl_hub: "clients ?w' hub = filter (\<lambda>(c, s). \<not> send_throws (sockets w s)) (clients w hub)"
    using broadcast_clients_hub[of ?w1 hub "Update body ?t"] dk by simp
  have cl_other: "\<And>h. h \<noteq> hub \<Longrightarrow> clients ?w' h = clients w h"
    by (simp add: broadcast_def broadcast_loop_clients)
  have a: "\<forall>(cid, s) \<in> set (clients w hub).
          if send_throws (sockets w s)
          then sockets ?w' s = (sockets w s)\<lparr>closed := True\<rparr>
               \<and> cid \<notin> fst ` set (clients ?w' hub)
          else sockets ?w' s = (sockets w s)\<lparr>delivered := delivered (sockets w s) @ [Update body ?t]\<rparr>
               \<and> (cid, s) \<in> set (clients ?w' hub)"
  proof (clarify)
    fix cid s assume m: "(cid, s) \<in> set (clients w hub)"
    then have sm: "s \<in> snd ` set (clients w hub)" by force
    show "if send_throws (sockets w s)
          then sockets ?w' s = (sockets w s)\<lparr>closed := True\<rparr>
               \<and> cid \<notin> fst ` set (clients ?w' hub)
          else sockets ?w' s = (sockets w s)\<lparr>delivered := delivered (sockets w s) @ [Update body ?t]\<rparr>
               \<and> (cid, s) \<in> set (clients ?w' hub)"
    proof (cases "send_throws (sockets w s)")
      case True
      have "cid \<notin> fst ` set (clients ?w' hub)"
      proof
        assume "cid \<in> fst ` set (clients ?w' hub)"
        then obtain s' where "(cid, s') \<in> set (clients ?w' hub)" by auto
        then have m': "(cid, s') \<in> set (clients w hub)" and nt: "\<not> send_throws (sockets w s')"
          unfolding cl_hub by auto
        from eq_key_imp_eq_value[OF dk m m'] nt True show False by simp
      qed
      with True sm show ?thesis by (simp add: socks)
    next
      case False
      with m have "(cid, s) \<in> set (clients ?w' hub)" unfolding cl_hub by simp
      with False sm show ?thesis by (simp add: socks)
    qed
  qed
  have b: "\<forall>h. h \<noteq> hub \<longrightarrow>
          clients ?w' h = clients w h
          \<and> (\<forall>(cid, s) \<in> set (clients w h). sockets ?w' s = sockets w s)"
  proof (intro allI impI conjI)
    fix h assume h: "h \<noteq> hub"
    then show "clients ?w' h = clients w h" by (rule cl_other)
    from wf h have dj: "snd ` set (clients w h) \<inter> snd ` set (clients w hub) = {}"
      by (simp add: hubs_wf_def)
    show "\<forall>(cid, s) \<in> set (clients w h). sockets ?w' s = sockets w s"
    proof (clarify)
      fix cid s assume "(cid, s) \<in> set (clients w h)"
      then have "s \<in> snd ` set (clients w h)" by force
      with dj have "s \<notin> snd ` set (clients w hub)" by blast
      then show "sockets ?w' s = sockets w s" by (simp add: socks)
    qed
  qed
  show ?thesis unfolding hu fst_conv snd_conv
    by (rule conjI[OF refl conjI[OF a b]])
qed

theorem publish_fan_out_witness:
  "hubs_wf hub_world \<and> vehicle_uuid example_point \<noteq> []
   \<and> fst (handleUpdate ''0a1b2c3d-0000-4000-8000-00000000000a'' example_point hub_world) = 200
   \<and> delivered (sockets (snd (handleUpdate ''0a1b2c3d-0000-4000-8000-00000000000a'' example_point hub_world)) 10) =
        [Update example_point (clock hub_world (clock_reads hub_world))]
   \<and> (''c0'', 10) \<in> set (clients (snd (handleUpdate ''0a1b2c3d-0000-4000-8000-00000000000a'' example_point hub_world)) ''0a1b2c3d-0000-4000-8000-00000000000a'')
   \<and> closed (sockets (snd (handleUpdate ''0a1b2c3d-0000-4000-8000-00000000000a'' example_point hub_world)) 11)
   \<and> delivered (sockets (snd (handleUpdate ''0a1b2c3d-0000-4000-8000-00000000000a'' example_point hub_world)) 11) = []
   \<and> ''c1'' \<notin> fst ` set (clients (snd (handleUpdate ''0a1b2c3d-0000-4000-8000-00000000000a'' example_point hub_world)) ''0a1b2c3d-0000-4000-8000-00000000000a'')
   \<and> clients (snd (handleUpdate ''0a1b2c3d-0000-4000-8000-00000000000a'' example_point hub_world)) ''0a1b2c3d-0000-4000-8000-00000000000b'' = [(''c2'', 12)]
   \<and> delivered (sockets (snd (handleUpdate ''0a1b2c3d-0000-4000-8000-00000000000a'' example_point hub_world)) 12) = []"
proof -
  let ?w' = "snd (handleUpdate ''0a1b2c3d-0000-4000-8000-00000000000a'' example_point hub_world)"
  have h2: "vehicle_uuid example_point \<noteq> []" by (simp add: example_point_def)
  have ca: "clients hub_world ''0a1b2c3d-0000-4000-8000-00000000000a'' = [(''c0'', 10), (''c1'', 11)]"
    by (simp add: hub_world_def)
  have cb: "clients hub_world ''0a1b2c3d-0000-4000-8000-00000000000b'' = [(''c2'', 12)]"
    by (simp add: hub_world_def)
  have s0: "sockets hub_world 10 = ok_socket"
    and s1: "sockets hub_world 11 = ok_socket\<lparr>send_throws := True\<rparr>"
    and s2: "sockets hub_world 12 = ok_socket"
    by (simp_all add: hub_world_def)
  note t = publish_fan_out [OF hubs_wf_hub_world h2, of "''0a1b2c3d-0000-4000-8000-00000000000a''"]
  from t have st: "fst (handleUpdate ''0a1b2c3d-0000-4000-8000-00000000000a'' example_point hub_world) = 200" by (rule conjunct1)
  from t [THEN conjunct2, THEN conjunct1]
  have a0: "sockets ?w' 10 = ok_socket\<lparr>delivered := delivered ok_socket @
               [Update example_point (clock hub_world (clock_reads hub_world))]\<rparr>
            \<and> (''c0'', 10) \<in> set (clients ?w' ''0a1b2c3d-0000-4000-8000-00000000000a'')"
    and a1: "sockets ?w' 11 = ok_socket\<lparr>send_throws := True, closed := True\<rparr>
            \<and> ''c1'' \<notin> fst ` set (clients ?w' ''0a1b2c3d-0000-4000-8000-00000000000a'')"
    unfolding ca by (simp_all add: s0 s1 ok_socket_def)
  have "''0a1b2c3d-0000-4000-8000-00000000000b'' \<noteq> ''0a1b2c3d-0000-4000-8000-00000000000a''" by simp
  with t [THEN conjunct2, THEN conjunct2, THEN spec, of "''0a1b2c3d-0000-4000-8000-00000000000b''"]
  have b: "clients ?w' ''0a1b2c3d-0000-4000-8000-00000000000b'' = [(''c2'', 12)] \<and> sockets ?w' 12 = ok_socket"
    unfolding cb by (simp add: s2)
  from st a0 a1 b h2 hubs_wf_hub_world show ?thesis
    by (simp add: ok_socket_def)
qed

end
